theory Spec2Isabelle
  imports Main
begin

section \<open>JavaScript strings\<close>

text \<open>
  A JavaScript string is a sequence of code units. The model uses \<^typ>\<open>string\<close>, that is
  the code units U+0000 to U+00FF, which cover every character the parsers test for.
  \<open>String.prototype.trim\<close> removes white space and line terminators; in this range
  these are TAB, LF, VT, FF, CR, SPACE and NBSP.
\<close>

definition isWhiteSpace :: "char \<Rightarrow> bool" where
  "isWhiteSpace c \<longleftrightarrow>
     c = CHR 0x09 \<or> c = CHR 0x0A \<or> c = CHR 0x0B \<or> c = CHR 0x0C \<or> c = CHR 0x0D \<or>
     c = CHR 0x20 \<or> c = CHR 0xA0"

text \<open>The regular expression atom \<open>.\<close> matches every code unit but a line terminator.\<close>

definition isLineTerminator :: "char \<Rightarrow> bool" where
  "isLineTerminator c \<longleftrightarrow> c = CHR 0x0A \<or> c = CHR 0x0D"

definition trimStart :: "string \<Rightarrow> string" where
  "trimStart s = dropWhile isWhiteSpace s"

definition trimEnd :: "string \<Rightarrow> string" where
  "trimEnd s = rev (dropWhile isWhiteSpace (rev s))"

definition trim :: "string \<Rightarrow> string" where
  "trim s = trimEnd (trimStart s)"

fun startsWith :: "string \<Rightarrow> string \<Rightarrow> bool" where
  "startsWith s [] = True"
| "startsWith [] (p # ps) = False"
| "startsWith (c # cs) (p # ps) = (c = p \<and> startsWith cs ps)"

fun includesStr :: "string \<Rightarrow> string \<Rightarrow> bool" where
  "includesStr [] p = (p = [])"
| "includesStr (c # cs) p = (startsWith (c # cs) p \<or> includesStr cs p)"

text \<open>\<open>indexOf\<close> is \<open>-1\<close> when the pattern does not occur.\<close>

fun indexOf :: "string \<Rightarrow> string \<Rightarrow> int" where
  "indexOf [] p = (if p = [] then 0 else - 1)"
| "indexOf (c # cs) p =
     (if startsWith (c # cs) p then 0
      else (let i = indexOf cs p in if i < 0 then - 1 else i + 1))"

text \<open>\<open>s.substring(n)\<close> clamps \<open>n\<close> to the range from 0 to the length of \<open>s\<close>.\<close>

definition substring :: "string \<Rightarrow> int \<Rightarrow> string" where
  "substring s n = drop (nat n) s"

text \<open>\<open>s.split(sep)\<close> for a separator of one code unit; the result is never empty.\<close>

fun split :: "char \<Rightarrow> string \<Rightarrow> string list" where
  "split sep [] = [[]]"
| "split sep (c # cs) =
     (if c = sep then [] # split sep cs
      else (case split sep cs of
              [] \<Rightarrow> [[c]]
            | x # xs \<Rightarrow> (c # x) # xs))"

text \<open>
  Reading an array beyond its length gives \<open>undefined\<close> (\<open>None\<close>), and calling a
  method on \<open>undefined\<close> throws a \<open>TypeError\<close>. The other errors are those of the
  file system and of the workspace store, which the cache manager meets.
\<close>

datatype error = TypeError | StatFailed | UpdateFailed | WriteFileFailed

definition jsIndex :: "'a list \<Rightarrow> nat \<Rightarrow> 'a option" where
  "jsIndex xs i = (if i < length xs then Some (xs ! i) else None)"

text \<open>\<open>v.trim()\<close> and \<open>v?.trim()\<close> on a value that may be \<open>undefined\<close>.\<close>

definition trimMethod :: "string option \<Rightarrow> error + string" where
  "trimMethod v = (case v of None \<Rightarrow> Inl TypeError | Some s \<Rightarrow> Inr (trim s))"

definition trimOptional :: "string option \<Rightarrow> string option" where
  "trimOptional v = map_option trim v"

section \<open>Dependency records\<close>

text \<open>
  \<open>ResolvedDependency\<close> and \<open>DependencyNode\<close> of the source. A \<open>DependencyNode\<close> is an
  object on the heap: the parser keeps references to it in \<open>rootNodes\<close>, in \<open>stack\<close> and in the
  \<open>children\<close> of its parent, and appends to its \<open>children\<close> after it was stored. The model
  keeps the nodes in a list, the heap, in the order of their creation; a reference is an index
  into it.
\<close>

record ResolvedDependency =
  groupId :: string
  artifactId :: string
  type :: string
  version :: string
  scope :: "string option"
  classifier :: "string option"

record DependencyNode = ResolvedDependency +
  children :: "nat list"
  omittedReason :: "string option"

section \<open>Coordinate decoding\<close>

text \<open>
  The destructuring assignments of \<open>parseDependencyNode\<close> and
  \<open>parseResolvedDependencyNode\<close>, which are the same in both: the values of
  \<open>groupId, artifactId, type, version, scope, classifier\<close> for an array of at least four
  parts.
\<close>

definition destructure ::
  "string list \<Rightarrow>
   string option \<times> string option \<times> string option \<times> string option \<times> string option \<times> string option"
where
  "destructure parts =
     (if length parts = 4 then
        (jsIndex parts 0, jsIndex parts 1, jsIndex parts 2, jsIndex parts 3, None, None)
      else if length parts = 5 then
        (jsIndex parts 0, jsIndex parts 1, jsIndex parts 2, jsIndex parts 3, jsIndex parts 4, None)
      else
        (jsIndex parts 0, jsIndex parts 1, jsIndex parts 2, jsIndex parts 4, jsIndex parts 5,
         jsIndex parts 3))"

definition parseResolvedDependencyNode :: "string \<Rightarrow> error + ResolvedDependency option" where
  "parseResolvedDependencyNode content =
     (let parts = split CHR '':'' content in
      if length parts < 4 then Inr None
      else
        (case destructure parts of (g, a, t, v, s, c) \<Rightarrow>
           (case trimMethod g of Inl e \<Rightarrow> Inl e | Inr g' \<Rightarrow>
           (case trimMethod a of Inl e \<Rightarrow> Inl e | Inr a' \<Rightarrow>
           (case trimMethod t of Inl e \<Rightarrow> Inl e | Inr t' \<Rightarrow>
           (case trimMethod v of Inl e \<Rightarrow> Inl e | Inr v' \<Rightarrow>
              Inr (Some \<lparr>groupId = g', artifactId = a', type = t', version = v',
                         scope = trimOptional s, classifier = trimOptional c\<rparr>)))))))"

subsection \<open>Omission suffixes\<close>

text \<open>
  \<open>content.match(/^\((.+)\)$/)\<close>: the capture group when the whole content is wrapped in
  parentheses around at least one code unit, none of them a line terminator.
\<close>

definition wrappedMatch :: "string \<Rightarrow> string option" where
  "wrappedMatch content =
     (case content of
        [] \<Rightarrow> None
      | c # cs \<Rightarrow>
          if c = CHR ''('' \<and> cs \<noteq> [] \<and> last cs = CHR '')'' \<and> butlast cs \<noteq> [] \<and>
             \<not> list_ex isLineTerminator (butlast cs)
          then Some (butlast cs) else None)"

text \<open>
  The four patterns are a literal followed either by \<open>$\<close> or by \<open>([^)]+)$\<close>. A pattern
  matches at a position when the literal is there and the rest of the input is empty, or
  respectively not empty and free of closing parentheses. \<open>match\<close> and \<open>replace\<close> take the
  leftmost position; since a match reaches the end of the input, \<open>content.replace(pattern, '')\<close>
  is what precedes it, which \<open>regexSearch\<close> returns.
\<close>

definition matchHere :: "string \<Rightarrow> bool \<Rightarrow> string \<Rightarrow> bool" where
  "matchHere lit grp s \<longleftrightarrow>
     startsWith s lit \<and>
     (let rest = drop (length lit) s in
      if grp then rest \<noteq> [] \<and> \<not> list_ex (\<lambda>c. c = CHR '')'') rest else rest = [])"

fun regexSearch :: "string \<Rightarrow> bool \<Rightarrow> string \<Rightarrow> string option" where
  "regexSearch lit grp [] = (if matchHere lit grp [] then Some [] else None)"
| "regexSearch lit grp (c # cs) =
     (if matchHere lit grp (c # cs) then Some []
      else map_option ((#) c) (regexSearch lit grp cs))"

definition omittedPatterns :: "(string \<times> bool \<times> string) list" where
  "omittedPatterns =
     [('' - omitted for conflict with '', True, ''conflict''),
      ('' - omitted for duplicate'', False, ''duplicate''),
      ('' - omitted for cycle'', False, ''cycle''),
      ('' - version managed from '', True, ''managed'')]"

text \<open>
  The loop over the patterns: the reason and the clean content of the first pattern that
  matches.
\<close>

fun matchOmitted :: "(string \<times> bool \<times> string) list \<Rightarrow> string \<Rightarrow> (string \<times> string) option" where
  "matchOmitted [] content = None"
| "matchOmitted ((lit, grp, reason) # pats) content =
     (case regexSearch lit grp content of
        Some pre \<Rightarrow> Some (reason, trim pre)
      | None \<Rightarrow> matchOmitted pats content)"

text \<open>The content after the parentheses were removed, and the reason with the clean content.\<close>

definition unwrapped :: "string \<Rightarrow> string" where
  "unwrapped content0 = (case wrappedMatch content0 of Some inner \<Rightarrow> inner | None \<Rightarrow> content0)"

definition omission :: "string \<Rightarrow> string option \<times> string" where
  "omission content0 =
     (let content = unwrapped content0 in
      case matchOmitted omittedPatterns content of
        Some (reason, cleanContent) \<Rightarrow> (Some reason, cleanContent)
      | None \<Rightarrow> (None, content))"

definition parseDependencyNode :: "string \<Rightarrow> error + DependencyNode option" where
  "parseDependencyNode content0 =
     (case omission content0 of (reason, cleanContent) \<Rightarrow>
        (let parts = split CHR '':'' cleanContent in
         if length parts < 4 then Inr None
         else
           (case destructure parts of (g, a, t, v, s, c) \<Rightarrow>
              (case trimMethod g of Inl e \<Rightarrow> Inl e | Inr g' \<Rightarrow>
              (case trimMethod a of Inl e \<Rightarrow> Inl e | Inr a' \<Rightarrow>
              (case trimMethod t of Inl e \<Rightarrow> Inl e | Inr t' \<Rightarrow>
              (case trimMethod v of Inl e \<Rightarrow> Inl e | Inr v' \<Rightarrow>
                 Inr (Some \<lparr>groupId = g', artifactId = a', type = t', version = v',
                            scope = trimOptional s, classifier = trimOptional c,
                            children = [], omittedReason = reason\<rparr>))))))))"

section \<open>The tree parser\<close>

text \<open>
  \<open>calculateIndent\<close>: the loop adds one for a space, goes on without adding for one of the
  tree characters, and stops at any other character.
\<close>

fun countIndent :: "string \<Rightarrow> nat \<Rightarrow> nat" where
  "countIndent [] indent = indent"
| "countIndent (c # cs) indent =
     (if c = CHR '' '' then countIndent cs (indent + 1)
      else if c = CHR ''|'' \<or> c = CHR ''+'' \<or> c = CHR 0x5C \<or> c = CHR ''-'' then
        countIndent cs indent
      else indent)"

definition calculateIndent :: "string \<Rightarrow> nat" where
  "calculateIndent line = countIndent line 0 div 3"

text \<open>The character class of \<open>content.replace(/^[+\-\\| ]+/, '')\<close>.\<close>

definition isTreeChar :: "char \<Rightarrow> bool" where
  "isTreeChar c \<longleftrightarrow>
     c = CHR ''+'' \<or> c = CHR ''-'' \<or> c = CHR 0x5C \<or> c = CHR ''|'' \<or> c = CHR '' ''"

text \<open>
  The first part of the loop body of \<open>parseDependencyTree\<close>, up to the decoded node:
  \<open>None\<close> where the source says \<open>continue\<close>, otherwise the indentation and the new node.
\<close>

definition treeLine :: "string \<Rightarrow> error + (nat \<times> DependencyNode) option" where
  "treeLine line =
     (if \<not> includesStr line ''[INFO]'' \<or> length (trim line) = 0 then Inr None
      else
        (let content = trimStart (substring line (indexOf line ''[INFO]'' + 6)) in
         if includesStr content ''---'' \<or> includesStr content ''maven-dependency-plugin'' \<or>
            startsWith content ''Downloading'' \<or> startsWith content ''Downloaded''
         then Inr None
         else
           (let indent = calculateIndent content;
                content' = trim (dropWhile isTreeChar content) in
            if length content' = 0 then Inr None
            else
              (case parseDependencyNode content' of
                 Inl e \<Rightarrow> Inl e
               | Inr None \<Rightarrow> Inr None
               | Inr (Some node) \<Rightarrow> Inr (Some (indent, node))))))"

text \<open>
  The state of the loop: the references in \<open>rootNodes\<close>, the stack of references with their
  indentation (the top is the last element, as in the source), and the heap of the nodes
  created so far.
\<close>

record treeState =
  rootNodes :: "nat list"
  stack :: "(nat \<times> nat) list"
  heap :: "DependencyNode list"

text \<open>\<open>while (stack.length > 0 && stack[stack.length - 1].indent >= indent) stack.pop()\<close>\<close>

function popStack :: "nat \<Rightarrow> (nat \<times> nat) list \<Rightarrow> (nat \<times> nat) list" where
  "popStack indent stk =
     (if length stk > 0 \<and> snd (last stk) \<ge> indent then popStack indent (butlast stk) else stk)"
  by pat_completeness auto
termination
  by (relation "measure (\<lambda>(indent, stk). length stk)") auto

text \<open>
  \<open>parent.children.push(node)\<close> for the references \<open>parent\<close> and \<open>node\<close>. Every
  node is created with an empty array of children, so the test \<open>!parent.children\<close> before
  it is never true.
\<close>

definition pushChild :: "DependencyNode list \<Rightarrow> nat \<Rightarrow> nat \<Rightarrow> DependencyNode list" where
  "pushChild h parent node =
     (case drop parent h of
        [] \<Rightarrow> h
      | p # _ \<Rightarrow> h[parent := p\<lparr>children := children p @ [node]\<rparr>])"

text \<open>The second part of the loop body: the new node gets the next free reference.\<close>

definition placeNode :: "nat \<Rightarrow> DependencyNode \<Rightarrow> treeState \<Rightarrow> treeState" where
  "placeNode indent n st =
     (let node = length (heap st);
          h = heap st @ [n] in
      if indent = 0 then
        \<lparr>rootNodes = rootNodes st @ [node], stack = [(node, indent)], heap = h\<rparr>
      else
        (let stk = popStack indent (stack st);
             h' = (if length stk > 0 then pushChild h (fst (last stk)) node else h) in
         \<lparr>rootNodes = rootNodes st, stack = stk @ [(node, indent)], heap = h'\<rparr>))"

fun treeLoop :: "string list \<Rightarrow> treeState \<Rightarrow> error + treeState" where
  "treeLoop [] st = Inr st"
| "treeLoop (line # lines) st =
     (case treeLine line of
        Inl e \<Rightarrow> Inl e
      | Inr None \<Rightarrow> treeLoop lines st
      | Inr (Some (indent, n)) \<Rightarrow> treeLoop lines (placeNode indent n st))"

text \<open>
  The result is the array \<open>rootNodes\<close>; what its references stand for is in the heap, which
  is returned with it.
\<close>

definition parseDependencyTree :: "string \<Rightarrow> error + (nat list \<times> DependencyNode list)" where
  "parseDependencyTree treeText =
     (case treeLoop (split CHR 0x0A treeText) \<lparr>rootNodes = [], stack = [], heap = []\<rparr> of
        Inl e \<Rightarrow> Inl e
      | Inr st \<Rightarrow> Inr (rootNodes st, heap st))"

section \<open>The list parser\<close>

text \<open>The loop body of \<open>parseResolvedDependencies\<close> up to the decoded dependency.\<close>

definition listLine :: "string \<Rightarrow> error + ResolvedDependency option" where
  "listLine line =
     (if \<not> includesStr line ''[INFO]'' then Inr None
      else
        (let content = trim (substring line (indexOf line ''[INFO]'' + 6)) in
         if length content = 0 \<or>
            includesStr content ''---'' \<or>
            includesStr content ''maven-dependency-plugin'' \<or>
            startsWith content ''The following'' \<or>
            startsWith content ''Downloading'' \<or>
            startsWith content ''Downloaded'' \<or>
            \<not> includesStr content '':''
         then Inr None
         else parseResolvedDependencyNode content))"

text \<open>The key of the set \<open>seenDependencies\<close>.\<close>

definition dependencyKey :: "ResolvedDependency \<Rightarrow> string" where
  "dependencyKey dependency = groupId dependency @ '':'' @ artifactId dependency"

fun listLoop ::
  "string list \<Rightarrow> ResolvedDependency list \<Rightarrow> string set \<Rightarrow> error + ResolvedDependency list"
where
  "listLoop [] dependencies seenDependencies = Inr dependencies"
| "listLoop (line # lines) dependencies seenDependencies =
     (case listLine line of
        Inl e \<Rightarrow> Inl e
      | Inr None \<Rightarrow> listLoop lines dependencies seenDependencies
      | Inr (Some dependency) \<Rightarrow>
          (let key = dependencyKey dependency in
           if key \<notin> seenDependencies then
             listLoop lines (dependencies @ [dependency]) (insert key seenDependencies)
           else listLoop lines dependencies seenDependencies))"

definition parseResolvedDependencies :: "string \<Rightarrow> error + ResolvedDependency list" where
  "parseResolvedDependencies listText = listLoop (split CHR 0x0A listText) [] {}"

section \<open>The cache manager\<close>

text \<open>
  \<open>CacheData\<close> of the source; its field \<open>version\<close> is \<open>cacheVersion\<close> here, since the
  dependency records have a field \<open>version\<close> too. \<open>Date.now()\<close> and \<open>mtime\<close> are
  milliseconds, integers.
\<close>

record 'd CacheData =
  data :: 'd
  timestamp :: int
  pomMtime :: int
  cacheVersion :: string

definition CACHE_VERSION :: string where
  "CACHE_VERSION = ''1.0.0''"

definition MAX_CACHE_AGE_MS :: int where
  "MAX_CACHE_AGE_MS = 60 * 60 * 1000"

definition SMALL_DATA_THRESHOLD :: nat where
  "SMALL_DATA_THRESHOLD = 50 * 1024"

text \<open>
  What one call of the manager reads from outside itself; the call is taken to be
  instantaneous, so the clock and the source file are the same throughout it.
  \<^item> \<open>dateNow\<close>: \<open>Date.now()\<close>;
  \<^item> \<open>statMtime p\<close>: \<open>(await vscode.workspace.fs.stat(vscode.Uri.file(p))).mtime\<close>,
    \<open>None\<close> when \<open>stat\<close> throws (the file is missing or unreadable);
  \<^item> \<open>storageUri\<close>: \<open>context.storageUri\<close>, which may be undefined;
  \<^item> \<open>md5hex\<close>: \<open>crypto.createHash('md5').update(p).digest('hex')\<close>;
  \<^item> \<open>jsonStringify d\<close>: \<open>JSON.stringify(data)\<close>, \<open>None\<close> when it throws or is
    undefined (then reading its \<open>length\<close> throws);
  \<^item> \<open>encodeEntry\<close>, \<open>decodeEntry\<close>: \<open>JSON.stringify\<close> of an entry, and
    \<open>JSON.parse\<close> of the content of a file, \<open>None\<close> when it throws or gives no entry;
  \<^item> \<open>updateFails\<close>: \<open>workspaceState.update\<close> rejects;
  \<open>writeFails\<close>: \<open>ensureStorageDirectory\<close> or \<open>fs.writeFile\<close> throws.
\<close>

record 'd world =
  dateNow :: int
  statMtime :: "string \<Rightarrow> int option"
  storageUri :: "string option"
  md5hex :: "string \<Rightarrow> string"
  jsonStringify :: "'d \<Rightarrow> string option"
  encodeEntry :: "'d CacheData \<Rightarrow> string"
  decodeEntry :: "string \<Rightarrow> 'd CacheData option"
  updateFails :: bool
  writeFails :: bool

text \<open>
  The three tiers: the map \<open>memoryCache\<close>, the workspace store by key and the files of the
  storage directory by path; and \<open>errorLog\<close>, the lines that \<open>set\<close> and
  \<open>setToFileCache\<close> write with \<open>console.error\<close> and \<open>console.warn\<close>, each
  named by its level and what it reports (their \<open>console.log\<close> lines are left out).
\<close>

record 'd cacheState =
  memoryCache :: "string \<rightharpoonup> 'd CacheData"
  workspaceState :: "string \<rightharpoonup> 'd CacheData"
  files :: "string \<rightharpoonup> string"
  errorLog :: "string list"

definition isCacheValid :: "'d world \<Rightarrow> 'd CacheData \<Rightarrow> string \<Rightarrow> bool" where
  "isCacheValid w cached pomPath =
     (if cacheVersion cached \<noteq> CACHE_VERSION then False
      else if dateNow w - timestamp cached > MAX_CACHE_AGE_MS then False
      else
        (case statMtime w pomPath of
           Some mtime \<Rightarrow> if mtime > pomMtime cached then False else True
         | None \<Rightarrow> False))"

definition generateCacheKey :: "string \<Rightarrow> string \<Rightarrow> string" where
  "generateCacheKey pomPath cacheKey = pomPath @ '':'' @ cacheKey"

definition getWorkspaceStateKey :: "'d world \<Rightarrow> string \<Rightarrow> string \<Rightarrow> string" where
  "getWorkspaceStateKey w pomPath cacheKey = ''maven-cache-'' @ cacheKey @ ''-'' @ md5hex w pomPath"

text \<open>\<open>Uri.joinPath(this.context.storageUri!, fileName)\<close> throws without a storage URI.\<close>

definition getCacheFilePath :: "'d world \<Rightarrow> string \<Rightarrow> string \<Rightarrow> error + string" where
  "getCacheFilePath w pomPath cacheKey =
     (case storageUri w of
        None \<Rightarrow> Inl TypeError
      | Some dir \<Rightarrow> Inr (dir @ ''/'' @ ''cache-'' @ cacheKey @ ''-'' @ md5hex w pomPath @ ''.json''))"

definition getFromFileCache ::
  "'d world \<Rightarrow> 'd cacheState \<Rightarrow> string \<Rightarrow> string \<Rightarrow> 'd CacheData option"
where
  "getFromFileCache w s pomPath cacheKey =
     (if storageUri w = None then None
      else
        (case getCacheFilePath w pomPath cacheKey of
           Inl e \<Rightarrow> None
         | Inr cacheFilePath \<Rightarrow>
             (case files s cacheFilePath of
                None \<Rightarrow> None
              | Some content \<Rightarrow> decodeEntry w content)))"

text \<open>\<open>cached && await this.isCacheValid(cached, pomPath)\<close>\<close>

definition validEntry :: "'d world \<Rightarrow> string \<Rightarrow> 'd CacheData option \<Rightarrow> bool" where
  "validEntry w pomPath cached =
     (case cached of None \<Rightarrow> False | Some c \<Rightarrow> isCacheValid w c pomPath)"

text \<open>
  \<open>get\<close> returns the data, or \<open>null\<close> (\<open>None\<close>), and the state it leaves.
\<close>

definition get ::
  "'d world \<Rightarrow> string \<Rightarrow> string \<Rightarrow> bool \<Rightarrow> 'd cacheState \<Rightarrow> 'd option \<times> 'd cacheState"
where
  "get w pomPath cacheKey forceRefresh s =
     (if forceRefresh then (None, s)
      else
        (let key = generateCacheKey pomPath cacheKey;
             memCached = memoryCache s key in
         if validEntry w pomPath memCached then (map_option data memCached, s)
         else
           (let wsKey = getWorkspaceStateKey w pomPath cacheKey;
                wsCached = workspaceState s wsKey in
            if validEntry w pomPath wsCached then
              (map_option data wsCached, s\<lparr>memoryCache := (memoryCache s)(key := wsCached)\<rparr>)
            else
              (let fileCached = getFromFileCache w s pomPath cacheKey in
               if validEntry w pomPath fileCached then
                 (map_option data fileCached,
                  s\<lparr>memoryCache := (memoryCache s)(key := fileCached)\<rparr>)
               else (None, s)))))"

definition estimateDataSize :: "'d world \<Rightarrow> 'd \<Rightarrow> nat" where
  "estimateDataSize w d = (case jsonStringify w d of Some str \<Rightarrow> length str | None \<Rightarrow> 0)"

text \<open>
  A statement that may throw returns the error or \<open>()\<close>, with the state it has reached:
  what was written before a \<open>throw\<close> stays written.
\<close>

definition setToFileCache ::
  "'d world \<Rightarrow> string \<Rightarrow> string \<Rightarrow> 'd CacheData \<Rightarrow> 'd cacheState \<Rightarrow> (error + unit) \<times> 'd cacheState"
where
  "setToFileCache w pomPath cacheKey cacheData s =
     (if storageUri w = None then
        (Inr (), s\<lparr>errorLog := errorLog s @ [''warn: storageUri unavailable'']\<rparr>)
      else
        (case (if writeFails w then Inl WriteFileFailed else getCacheFilePath w pomPath cacheKey) of
           Inl e \<Rightarrow> (Inl e, s\<lparr>errorLog := errorLog s @ [''error: file cache write failed'']\<rparr>)
         | Inr cacheFilePath \<Rightarrow>
             (Inr (), s\<lparr>files := (files s)(cacheFilePath \<mapsto> encodeEntry w cacheData)\<rparr>)))"

text \<open>The \<open>try\<close> block of \<open>set\<close>.\<close>

definition setTry ::
  "'d world \<Rightarrow> string \<Rightarrow> string \<Rightarrow> 'd \<Rightarrow> string \<Rightarrow> 'd cacheState \<Rightarrow> (error + unit) \<times> 'd cacheState"
where
  "setTry w pomPath cacheKey d key s =
     (case statMtime w pomPath of
        None \<Rightarrow> (Inl StatFailed, s)
      | Some mtime \<Rightarrow>
          (let cacheData = \<lparr>data = d, timestamp = dateNow w, pomMtime = mtime,
                            cacheVersion = CACHE_VERSION\<rparr>;
               s1 = s\<lparr>memoryCache := (memoryCache s)(key \<mapsto> cacheData)\<rparr>;
               dataSize = estimateDataSize w d in
           if dataSize < SMALL_DATA_THRESHOLD then
             (let wsKey = getWorkspaceStateKey w pomPath cacheKey in
              if updateFails w then (Inl UpdateFailed, s1)
              else (Inr (), s1\<lparr>workspaceState := (workspaceState s1)(wsKey \<mapsto> cacheData)\<rparr>))
           else setToFileCache w pomPath cacheKey cacheData s1))"

text \<open>\<open>set\<close> with its \<open>catch\<close>, which writes to the console and returns.\<close>

definition set_cache ::
  "'d world \<Rightarrow> string \<Rightarrow> string \<Rightarrow> 'd \<Rightarrow> 'd cacheState \<Rightarrow> (error + unit) \<times> 'd cacheState"
where
  "set_cache w pomPath cacheKey d s =
     (let key = generateCacheKey pomPath cacheKey in
      case setTry w pomPath cacheKey d key s of
        (Inr u, s') \<Rightarrow> (Inr (), s')
      | (Inl e, s') \<Rightarrow> (Inr (), s'\<lparr>errorLog := errorLog s' @ [''error: cache write failed'']\<rparr>))"

section \<open>Notions of the specification\<close>

text \<open>A string is trimmed when it neither starts nor ends with white space.\<close>

definition isTrimmed :: "string \<Rightarrow> bool" where
  "isTrimmed s \<longleftrightarrow> s = [] \<or> (\<not> isWhiteSpace (hd s) \<and> \<not> isWhiteSpace (last s))"

text \<open>The node that \<open>parseDependencyNode\<close> builds from decoded coordinates and a reason.\<close>

definition nodeOf :: "string option \<Rightarrow> ResolvedDependency \<Rightarrow> DependencyNode" where
  "nodeOf reason d =
     \<lparr>groupId = groupId d, artifactId = artifactId d, type = type d, version = version d,
      scope = scope d, classifier = classifier d, children = [], omittedReason = reason\<rparr>"

text \<open>
  For the examples: an entry; a world in which the cached data are strings that serialize to
  themselves, the clock shows 1000, only \<open>/p/pom.xml\<close> exists, last modified at 500, and
  the file content \<open>v\<close> is read as the example entry; and the state of a manager that has
  nothing stored.
\<close>

definition exampleEntry :: "string CacheData" where
  "exampleEntry = \<lparr>data = ''v'', timestamp = 900, pomMtime = 500, cacheVersion = ''1.0.0''\<rparr>"

definition exampleWorld :: "string world" where
  "exampleWorld =
     \<lparr>dateNow = 1000, statMtime = (\<lambda>p. if p = ''/p/pom.xml'' then Some 500 else None),
      storageUri = Some ''/store'', md5hex = (\<lambda>p. ''h''),
      jsonStringify = Some, encodeEntry = data,
      decodeEntry = (\<lambda>c. if c = ''v'' then Some exampleEntry else None),
      updateFails = False, writeFails = False\<rparr>"

definition emptyState :: "string cacheState" where
  "emptyState =
     \<lparr>memoryCache = Map.empty, workspaceState = Map.empty, files = Map.empty, errorLog = []\<rparr>"

text \<open>
  The identity of a dependency in the flat list, the records that reach the test against
  \<open>seenDependencies\<close>, and the list in which the first record of every identity is kept and
  the later ones are dropped.
\<close>

definition coordinate :: "ResolvedDependency \<Rightarrow> string \<times> string" where
  "coordinate d = (groupId d, artifactId d)"

fun keepFirst :: "ResolvedDependency list \<Rightarrow> ResolvedDependency list" where
  "keepFirst [] = []"
| "keepFirst (d # ds) = d # keepFirst (filter (\<lambda>e. coordinate e \<noteq> coordinate d) ds)"

definition candidates :: "string list \<Rightarrow> ResolvedDependency list" where
  "candidates lines =
     concat (map (\<lambda>line. case listLine line of Inr (Some d) \<Rightarrow> [d] | _ \<Rightarrow> []) lines)"

text \<open>
  The text \<open>u\<close> ends in the suffix of a pattern after \<open>pre\<close>: the literal follows
  \<open>pre\<close> and ends the text, or, for a pattern with the group \<open>([^)]+)\<close>, is followed
  to the end by an \<open>X\<close> of at least one character and without a closing parenthesis.
\<close>

definition endsInSuffix :: "string \<Rightarrow> string \<Rightarrow> bool \<Rightarrow> string \<Rightarrow> bool" where
  "endsInSuffix u lit grp pre \<longleftrightarrow>
     (if grp then \<exists>X. X \<noteq> [] \<and> CHR '')'' \<notin> set X \<and> u = pre @ lit @ X
      else u = pre @ lit)"

text \<open>The entry that \<open>set\<close> makes for the data \<open>d\<close> and a source modified at \<open>mtime\<close>.\<close>

definition newEntry :: "'d world \<Rightarrow> 'd \<Rightarrow> int \<Rightarrow> 'd CacheData" where
  "newEntry w d mtime =
     \<lparr>data = d, timestamp = dateNow w, pomMtime = mtime, cacheVersion = CACHE_VERSION\<rparr>"

section \<open>Properties of the decoder and of the validator\<close>

lemma trimEnd_last: "trimEnd s \<noteq> [] \<Longrightarrow> \<not> isWhiteSpace (last (trimEnd s))"
  unfolding trimEnd_def by (simp add: last_rev hd_dropWhile)

lemma trimEnd_hd:
  "trimEnd s \<noteq> [] \<Longrightarrow> \<not> isWhiteSpace (hd s) \<Longrightarrow> \<not> isWhiteSpace (hd (trimEnd s))"
proof (induction s)
  case Nil
  then show ?case by (simp add: trimEnd_def)
next
  case (Cons a s)
  have "trimEnd (a # s) = a # trimEnd s"
    using Cons.prems(2) by (simp add: trimEnd_def dropWhile_append)
  then show ?case using Cons.prems by simp
qed

lemma isTrimmed_trim: "isTrimmed (trim s)"
proof (cases "trim s = []")
  case True
  then show ?thesis by (simp add: isTrimmed_def)
next
  case False
  then have ne: "trimStart s \<noteq> []" by (auto simp: trim_def trimEnd_def)
  then have "\<not> isWhiteSpace (hd (trimStart s))"
    unfolding trimStart_def by (simp add: hd_dropWhile)
  with False have "\<not> isWhiteSpace (hd (trim s))"
    unfolding trim_def by (intro trimEnd_hd)
  moreover from False have "\<not> isWhiteSpace (last (trim s))"
    unfolding trim_def by (rule trimEnd_last)
  ultimately show ?thesis by (simp add: isTrimmed_def)
qed

lemmas decode_defs =
  parseResolvedDependencyNode_def destructure_def jsIndex_def trimMethod_def trimOptional_def

lemma decode_short:
  "length (split CHR '':'' content) < 4 \<Longrightarrow> parseResolvedDependencyNode content = Inr None"
  by (simp add: parseResolvedDependencyNode_def)

lemma decode4:
  "split CHR '':'' content = [g, a, t, v] \<Longrightarrow>
   parseResolvedDependencyNode content =
     Inr (Some \<lparr>groupId = trim g, artifactId = trim a, type = trim t, version = trim v,
                scope = None, classifier = None\<rparr>)"
  by (simp add: decode_defs)

lemma decode5:
  "split CHR '':'' content = [g, a, t, v, s] \<Longrightarrow>
   parseResolvedDependencyNode content =
     Inr (Some \<lparr>groupId = trim g, artifactId = trim a, type = trim t, version = trim v,
                scope = Some (trim s), classifier = None\<rparr>)"
  by (simp add: decode_defs)

lemma decode6:
  "split CHR '':'' content = g # a # t # c # v # s # rest \<Longrightarrow>
   parseResolvedDependencyNode content =
     Inr (Some \<lparr>groupId = trim g, artifactId = trim a, type = trim t, version = trim v,
                scope = Some (trim s), classifier = Some (trim c)\<rparr>)"
  by (simp add: decode_defs)

lemma length_ge4_cases:
  assumes "\<not> length (xs::'a list) < 4"
  obtains g a t v where "xs = [g, a, t, v]"
  | g a t v s where "xs = [g, a, t, v, s]"
  | g a t c v s rest where "xs = g # a # t # c # v # s # rest"
proof -
  from assms obtain g a t v r1 where 1: "xs = g # a # t # v # r1"
    by (cases xs; simp; cases "tl xs"; simp; cases "tl (tl xs)"; simp; cases "tl (tl (tl xs))"; simp) 
  show ?thesis
  proof (cases r1)
    case Nil
    then show ?thesis using 1 that(1) by simp
  next
    case (Cons s r2)
    then show ?thesis using 1 that(2,3) by (cases r2) auto
  qed
qed

text \<open>The decoder of the tree parser is that of the list parser on the clean content.\<close>

lemma parseDependencyNode_decode:
  "parseDependencyNode payload =
     (case parseResolvedDependencyNode (snd (omission payload)) of
        Inl e \<Rightarrow> Inl e
      | Inr None \<Rightarrow> Inr None
      | Inr (Some d) \<Rightarrow> Inr (Some (nodeOf (fst (omission payload)) d)))"
proof -
  obtain reason clean where om: "omission payload = (reason, clean)"
    by (cases "omission payload")
  show ?thesis
  proof (cases "length (split CHR '':'' clean) < 4")
    case True
    then show ?thesis
      by (simp add: om parseDependencyNode_def parseResolvedDependencyNode_def)
  next
    case False
    then show ?thesis
      by (cases rule: length_ge4_cases)
         (simp_all add: om parseDependencyNode_def decode_defs nodeOf_def)
  qed
qed

lemma decode_total: "\<exists>r. parseResolvedDependencyNode content = Inr r"
proof (cases "length (split CHR '':'' content) < 4")
  case True
  then show ?thesis by (simp add: decode_short)
next
  case False
  then show ?thesis
    by (cases rule: length_ge4_cases) (simp_all add: decode4 decode5 decode6)
qed

lemma decode_trimmed:
  assumes "parseResolvedDependencyNode content = Inr (Some d)"
  shows "isTrimmed (groupId d) \<and> isTrimmed (artifactId d) \<and> isTrimmed (type d) \<and>
         isTrimmed (version d) \<and> pred_option isTrimmed (scope d) \<and> pred_option isTrimmed (classifier d)"
proof (cases "length (split CHR '':'' content) < 4")
  case True
  then show ?thesis using assms by (simp add: decode_short)
next
  case False
  then show ?thesis using assms
    by (cases rule: length_ge4_cases) (auto simp add: decode4 decode5 decode6 isTrimmed_trim)
qed

text \<open>
  Claim C4. With the parts that splitting at the colons gives: fewer than four parts decode
  to nothing; four parts are group, artifact, type and version; five add the scope; of six or
  more only the first six count, in the order group, artifact, type, classifier, version,
  scope; every decoded field is trimmed. \<open>parseDependencyNode\<close> decodes its clean content in
  just this way and adds the omission reason and an empty list of children.
\<close>

theorem coordinate_decoder:
  "(length (split CHR '':'' content) < 4 \<longrightarrow> parseResolvedDependencyNode content = Inr None) \<and>
   (\<forall>g a t v. split CHR '':'' content = [g, a, t, v] \<longrightarrow>
      parseResolvedDependencyNode content =
        Inr (Some \<lparr>groupId = trim g, artifactId = trim a, type = trim t, version = trim v,
                   scope = None, classifier = None\<rparr>)) \<and>
   (\<forall>g a t v s. split CHR '':'' content = [g, a, t, v, s] \<longrightarrow>
      parseResolvedDependencyNode content =
        Inr (Some \<lparr>groupId = trim g, artifactId = trim a, type = trim t, version = trim v,
                   scope = Some (trim s), classifier = None\<rparr>)) \<and>
   (\<forall>g a t c v s rest. split CHR '':'' content = g # a # t # c # v # s # rest \<longrightarrow>
      parseResolvedDependencyNode content =
        Inr (Some \<lparr>groupId = trim g, artifactId = trim a, type = trim t, version = trim v,
                   scope = Some (trim s), classifier = Some (trim c)\<rparr>)) \<and>
   (\<forall>d. parseResolvedDependencyNode content = Inr (Some d) \<longrightarrow>
      isTrimmed (groupId d) \<and> isTrimmed (artifactId d) \<and> isTrimmed (type d) \<and>
      isTrimmed (version d) \<and> pred_option isTrimmed (scope d) \<and>
      pred_option isTrimmed (classifier d)) \<and>
   parseDependencyNode payload =
     (case parseResolvedDependencyNode (snd (omission payload)) of
        Inl e \<Rightarrow> Inl e
      | Inr None \<Rightarrow> Inr None
      | Inr (Some d) \<Rightarrow> Inr (Some (nodeOf (fst (omission payload)) d)))"
proof -
  have short: "length (split CHR '':'' content) < 4 \<longrightarrow>
      parseResolvedDependencyNode content = Inr None"
    by (simp add: decode_short)
  have trimmed: "\<forall>d. parseResolvedDependencyNode content = Inr (Some d) \<longrightarrow>
      isTrimmed (groupId d) \<and> isTrimmed (artifactId d) \<and> isTrimmed (type d) \<and>
      isTrimmed (version d) \<and> pred_option isTrimmed (scope d) \<and>
      pred_option isTrimmed (classifier d)"
    using decode_trimmed by blast
  show ?thesis
    apply (intro conjI)
         apply (rule short)
        apply (intro allI impI, erule decode4)
       apply (intro allI impI, erule decode5)
      apply (intro allI impI, erule decode6)
     apply (rule trimmed)
    apply (rule parseDependencyNode_decode)
    done
qed

theorem coordinate_decoder_witness:
  "parseResolvedDependencyNode ''org.x: art :jar:tests:1.0 :test:more'' =
     Inr (Some \<lparr>groupId = ''org.x'', artifactId = ''art'', type = ''jar'', version = ''1.0'',
                scope = Some ''test'', classifier = Some ''tests''\<rparr>) \<and>
   parseResolvedDependencyNode ''org.x:art:jar:1.0'' =
     Inr (Some \<lparr>groupId = ''org.x'', artifactId = ''art'', type = ''jar'', version = ''1.0'',
                scope = None, classifier = None\<rparr>) \<and>
   parseResolvedDependencyNode ''org.x:art:jar'' = Inr None"
proof -
  have trims: "trim ''org.x'' = ''org.x''" "trim '' art '' = ''art''" "trim ''jar'' = ''jar''"
    "trim ''tests'' = ''tests''" "trim ''1.0 '' = ''1.0''" "trim ''test'' = ''test''"
    "trim ''1.0'' = ''1.0''" "trim ''art'' = ''art''"
    by (simp_all add: trim_def trimStart_def trimEnd_def isWhiteSpace_def)
  have s6: "split CHR '':'' ''org.x: art :jar:tests:1.0 :test:more'' =
      ''org.x'' # '' art '' # ''jar'' # ''tests'' # ''1.0 '' # ''test'' # [''more'']"
    by simp
  have s4: "split CHR '':'' ''org.x:art:jar:1.0'' = [''org.x'', ''art'', ''jar'', ''1.0'']"
    by simp
  have s3: "length (split CHR '':'' ''org.x:art:jar'') < 4"
    by simp
  from coordinate_decoder [of "''org.x: art :jar:tests:1.0 :test:more''" "[]"] s6
  have 1: "parseResolvedDependencyNode ''org.x: art :jar:tests:1.0 :test:more'' =
     Inr (Some \<lparr>groupId = ''org.x'', artifactId = ''art'', type = ''jar'', version = ''1.0'',
                scope = Some ''test'', classifier = Some ''tests''\<rparr>)"
    by (simp only: trims)
  from coordinate_decoder [of "''org.x:art:jar:1.0''" "[]"] s4
  have 2: "parseResolvedDependencyNode ''org.x:art:jar:1.0'' =
     Inr (Some \<lparr>groupId = ''org.x'', artifactId = ''art'', type = ''jar'', version = ''1.0'',
                scope = None, classifier = None\<rparr>)"
    by (simp only: trims)
  from coordinate_decoder [of "''org.x:art:jar''" "[]"] s3
  have 3: "parseResolvedDependencyNode ''org.x:art:jar'' = Inr None"
    by simp
  from 1 2 3 show ?thesis by (intro conjI)
qed

text \<open>
  Claim C3. An entry is valid exactly when its version is the current one, its age is at most
  the time to live of one hour, and the source file can be probed and was not modified after
  the entry was made. A failed probe makes the entry invalid, and so does an age beyond the
  time to live, whatever the source file.
\<close>

theorem freshness_validator:
  "(isCacheValid w cached pomPath \<longleftrightarrow>
      cacheVersion cached = CACHE_VERSION \<and>
      dateNow w - timestamp cached \<le> MAX_CACHE_AGE_MS \<and>
      (\<exists>mtime. statMtime w pomPath = Some mtime \<and> \<not> mtime > pomMtime cached)) \<and>
   MAX_CACHE_AGE_MS = 3600000 \<and>
   (statMtime w pomPath = None \<longrightarrow> \<not> isCacheValid w cached pomPath) \<and>
   (dateNow w - timestamp cached > MAX_CACHE_AGE_MS \<longrightarrow> \<not> isCacheValid w cached pomPath)"
  by (auto simp add: isCacheValid_def MAX_CACHE_AGE_MS_def split: option.splits)

theorem freshness_validator_witness:
  "isCacheValid exampleWorld
     \<lparr>data = ''v'', timestamp = 0, pomMtime = 500, cacheVersion = ''1.0.0''\<rparr> ''/p/pom.xml'' \<and>
   \<not> isCacheValid exampleWorld
     \<lparr>data = ''v'', timestamp = 0, pomMtime = 500, cacheVersion = ''1.0.0''\<rparr> ''/q/pom.xml'' \<and>
   \<not> isCacheValid (exampleWorld\<lparr>dateNow := 3600001\<rparr>)
     \<lparr>data = ''v'', timestamp = 0, pomMtime = 500, cacheVersion = ''1.0.0''\<rparr> ''/p/pom.xml''"
proof -
  let ?c = "\<lparr>data = ''v'', timestamp = 0, pomMtime = 500, cacheVersion = ''1.0.0''\<rparr>"
  have stat: "statMtime exampleWorld ''/p/pom.xml'' = Some 500"
    by (simp add: exampleWorld_def)
  have fresh: "cacheVersion ?c = CACHE_VERSION \<and>
      dateNow exampleWorld - timestamp ?c \<le> MAX_CACHE_AGE_MS \<and>
      (\<exists>mtime. statMtime exampleWorld ''/p/pom.xml'' = Some mtime \<and> \<not> mtime > pomMtime ?c)"
    unfolding stat by (simp add: exampleWorld_def CACHE_VERSION_def MAX_CACHE_AGE_MS_def)
  have missing: "statMtime exampleWorld ''/q/pom.xml'' = None"
    by (simp add: exampleWorld_def)
  have old: "dateNow (exampleWorld\<lparr>dateNow := 3600001\<rparr>) - timestamp ?c > MAX_CACHE_AGE_MS"
    by (simp add: MAX_CACHE_AGE_MS_def)
  note thm1 = freshness_validator [of exampleWorld ?c "''/p/pom.xml''"]
  note thm2 = freshness_validator [of exampleWorld ?c "''/q/pom.xml''"]
  note thm3 = freshness_validator [of "exampleWorld\<lparr>dateNow := 3600001\<rparr>" ?c "''/p/pom.xml''"]
  have 1: "isCacheValid exampleWorld ?c ''/p/pom.xml''"
    by (rule thm1 [THEN conjunct1, THEN iffD2, OF fresh])
  have 2: "\<not> isCacheValid exampleWorld ?c ''/q/pom.xml''"
    by (rule thm2 [THEN conjunct2, THEN conjunct2, THEN conjunct1, THEN mp, OF missing])
  have 3: "\<not> isCacheValid (exampleWorld\<lparr>dateNow := 3600001\<rparr>) ?c ''/p/pom.xml''"
    by (rule thm3 [THEN conjunct2, THEN conjunct2, THEN conjunct2, THEN mp, OF old])
  from 1 2 3 show ?thesis by (intro conjI)
qed

section \<open>Properties of the parsers\<close>

subsection \<open>Totality\<close>

lemma parseDependencyNode_total: "\<exists>r. parseDependencyNode payload = Inr r"
proof -
  obtain r where "parseResolvedDependencyNode (snd (omission payload)) = Inr r"
    using decode_total by blast
  then show ?thesis
    by (cases r) (simp_all add: parseDependencyNode_decode)
qed

lemma listLine_total: "\<exists>r. listLine line = Inr r"
  using decode_total by (simp add: listLine_def Let_def)

lemma treeLine_total: "\<exists>r. treeLine line = Inr r"
proof -
  have "\<exists>r. (case parseDependencyNode c of Inl e \<Rightarrow> Inl e | Inr None \<Rightarrow> Inr None
        | Inr (Some node) \<Rightarrow> Inr (Some (i, node))) = Inr r" for c and i :: nat
  proof -
    obtain q where "parseDependencyNode c = Inr q"
      using parseDependencyNode_total by blast
    then show ?thesis by (cases q) simp_all
  qed
  then show ?thesis
    by (simp add: treeLine_def Let_def)
qed

lemma listLoop_total: "\<exists>r. listLoop lines deps seen = Inr r"
proof (induction lines arbitrary: deps seen)
  case Nil
  then show ?case by simp
next
  case (Cons line lines)
  obtain r where r: "listLine line = Inr r"
    using listLine_total by blast
  show ?case
    using Cons.IH by (cases r) (simp_all add: r Let_def)
qed

lemma treeLoop_total: "\<exists>r. treeLoop lines st = Inr r"
proof (induction lines arbitrary: st)
  case Nil
  then show ?case by simp
next
  case (Cons line lines)
  obtain r where r: "treeLine line = Inr r"
    using treeLine_total by blast
  show ?case
    using Cons.IH by (cases r) (auto simp add: r)
qed

lemma parseDependencyTree_total: "\<exists>roots h. parseDependencyTree treeText = Inr (roots, h)"
proof -
  obtain st where "treeLoop (split CHR 0x0A treeText) \<lparr>rootNodes = [], stack = [], heap = []\<rparr> = Inr st"
    using treeLoop_total by blast
  then show ?thesis by (simp add: parseDependencyTree_def)
qed

subsection \<open>Skipped lines\<close>

lemma split_append: "split sep (a @ sep # b) = split sep a @ split sep b"
proof (induction a)
  case Nil
  then show ?case by simp
next
  case (Cons c a)
  have ne: "split sep a \<noteq> []" by (cases a) (auto split: list.splits)
  then show ?case using Cons by (auto split: list.splits)
qed

lemma split_single: "sep \<notin> set l \<Longrightarrow> split sep l = [l]"
  by (induction l) auto

lemma split_insert_line:
  "sep \<notin> set l \<Longrightarrow> split sep (a @ sep # l @ sep # b) = split sep a @ l # split sep b"
  using split_append [of sep a "l @ sep # b"] split_append [of sep l b]
  by (simp add: split_single)

lemma treeLoop_append:
  "treeLoop (xs @ ys) st =
     (case treeLoop xs st of Inl e \<Rightarrow> Inl e | Inr st' \<Rightarrow> treeLoop ys st')"
  by (induction xs arbitrary: st) (auto split: sum.splits option.splits)

lemma treeLoop_skip:
  "treeLine l = Inr None \<Longrightarrow> treeLoop (xs @ l # ys) st = treeLoop (xs @ ys) st"
  by (simp add: treeLoop_append split: sum.splits)

lemma listLoop_skip:
  "listLine l = Inr None \<Longrightarrow>
   listLoop (xs @ l # ys) deps seen = listLoop (xs @ ys) deps seen"
  by (induction xs arbitrary: deps seen) (auto split: sum.splits option.splits simp: Let_def)

text \<open>
  Claim C9. For every text the tree parser and the list parser return a result and raise
  nothing: the only possible error of the model, a method call on \<open>undefined\<close>, does not
  occur. A line that is not recognized or does not decode is skipped, so the result is that of
  the text without the line.
\<close>

theorem parser_totality:
  "(\<exists>roots h. parseDependencyTree text = Inr (roots, h)) \<and>
   (\<exists>deps. parseResolvedDependencies text = Inr deps) \<and>
   (CHR 0x0A \<notin> set l \<and> treeLine l = Inr None \<longrightarrow>
      parseDependencyTree (a @ CHR 0x0A # l @ CHR 0x0A # b) =
      parseDependencyTree (a @ CHR 0x0A # b)) \<and>
   (CHR 0x0A \<notin> set l \<and> listLine l = Inr None \<longrightarrow>
      parseResolvedDependencies (a @ CHR 0x0A # l @ CHR 0x0A # b) =
      parseResolvedDependencies (a @ CHR 0x0A # b))"
proof -
  have list_total: "\<exists>deps. parseResolvedDependencies text = Inr deps"
    unfolding parseResolvedDependencies_def by (rule listLoop_total)
  have tree_skip: "CHR 0x0A \<notin> set l \<and> treeLine l = Inr None \<longrightarrow>
      parseDependencyTree (a @ CHR 0x0A # l @ CHR 0x0A # b) =
      parseDependencyTree (a @ CHR 0x0A # b)"
  proof (intro impI, elim conjE)
    assume nl: "CHR 0x0A \<notin> set l" and sk: "treeLine l = Inr None"
    have "split CHR 0x0A (a @ CHR 0x0A # l @ CHR 0x0A # b) =
        split CHR 0x0A a @ l # split CHR 0x0A b"
      using nl by (rule split_insert_line)
    moreover have "split CHR 0x0A (a @ CHR 0x0A # b) = split CHR 0x0A a @ split CHR 0x0A b"
      by (rule split_append)
    ultimately show "parseDependencyTree (a @ CHR 0x0A # l @ CHR 0x0A # b) =
        parseDependencyTree (a @ CHR 0x0A # b)"
      by (simp only: parseDependencyTree_def treeLoop_skip [OF sk])
  qed
  have list_skip: "CHR 0x0A \<notin> set l \<and> listLine l = Inr None \<longrightarrow>
      parseResolvedDependencies (a @ CHR 0x0A # l @ CHR 0x0A # b) =
      parseResolvedDependencies (a @ CHR 0x0A # b)"
  proof (intro impI, elim conjE)
    assume nl: "CHR 0x0A \<notin> set l" and sk: "listLine l = Inr None"
    have "split CHR 0x0A (a @ CHR 0x0A # l @ CHR 0x0A # b) =
        split CHR 0x0A a @ l # split CHR 0x0A b"
      using nl by (rule split_insert_line)
    moreover have "split CHR 0x0A (a @ CHR 0x0A # b) = split CHR 0x0A a @ split CHR 0x0A b"
      by (rule split_append)
    ultimately show "parseResolvedDependencies (a @ CHR 0x0A # l @ CHR 0x0A # b) =
        parseResolvedDependencies (a @ CHR 0x0A # b)"
      by (simp only: parseResolvedDependencies_def listLoop_skip [OF sk])
  qed
  from parseDependencyTree_total list_total tree_skip list_skip
  show ?thesis by (intro conjI)
qed


theorem parser_totality_witness:
  "treeLine ''[INFO] BUILD SUCCESS'' = Inr None \<and>
   listLine ''[INFO] BUILD SUCCESS'' = Inr None \<and>
   parseDependencyTree (''[INFO] g:a:jar:1'' @ CHR 0x0A # ''[INFO] BUILD SUCCESS'' @ CHR 0x0A # ''[INFO] g:b:jar:2'') =
   parseDependencyTree (''[INFO] g:a:jar:1'' @ CHR 0x0A # ''[INFO] g:b:jar:2'') \<and>
   parseResolvedDependencies (''[INFO] g:a:jar:1'' @ CHR 0x0A # ''[INFO] BUILD SUCCESS'' @ CHR 0x0A # ''[INFO] g:b:jar:2'') =
   parseResolvedDependencies (''[INFO] g:a:jar:1'' @ CHR 0x0A # ''[INFO] g:b:jar:2'')"
proof -
  have t: "treeLine ''[INFO] BUILD SUCCESS'' = Inr None"
    by code_simp
  have l: "listLine ''[INFO] BUILD SUCCESS'' = Inr None"
    by code_simp
  have nl: "CHR 0x0A \<notin> set ''[INFO] BUILD SUCCESS''"
    by simp
  note inst = parser_totality [of "''[INFO] g:a:jar:1'' @ CHR 0x0A # ''[INFO] g:b:jar:2''"
      "''[INFO] BUILD SUCCESS''" "''[INFO] g:a:jar:1''" "''[INFO] g:b:jar:2''"]
  have 1: "parseDependencyTree (''[INFO] g:a:jar:1'' @ CHR 0x0A # ''[INFO] BUILD SUCCESS'' @ CHR 0x0A # ''[INFO] g:b:jar:2'') =
     parseDependencyTree (''[INFO] g:a:jar:1'' @ CHR 0x0A # ''[INFO] g:b:jar:2'')"
    using inst [THEN conjunct2, THEN conjunct2, THEN conjunct1] nl t by (rule mp [OF _ conjI])
  have 2: "parseResolvedDependencies (''[INFO] g:a:jar:1'' @ CHR 0x0A # ''[INFO] BUILD SUCCESS'' @ CHR 0x0A # ''[INFO] g:b:jar:2'') =
     parseResolvedDependencies (''[INFO] g:a:jar:1'' @ CHR 0x0A # ''[INFO] g:b:jar:2'')"
    using inst [THEN conjunct2, THEN conjunct2, THEN conjunct2] nl l by (rule mp [OF _ conjI])
  from t l 1 2 show ?thesis by (intro conjI)
qed

text \<open>
  \<open>calculateIndent\<close> counts the spaces among the leading spaces and tree characters, not
  the tree characters themselves.
\<close>

lemma countIndent_spaces:
  "countIndent line n = n + length (filter (\<lambda>c. c = CHR '' '') (takeWhile isTreeChar line))"
  by (induction line arbitrary: n) (auto simp add: isTreeChar_def)

lemma calculateIndent_spaces:
  "calculateIndent line =
     length (filter (\<lambda>c. c = CHR '' '') (takeWhile isTreeChar line)) div 3"
  by (simp add: calculateIndent_def countIndent_spaces)

text \<open>
  Claim C1. The line \<open>+- com.foo:baz:jar:2.0\<close> starts with three characters that are
  spaces or tree characters, which stand for depth 1, yet \<open>calculateIndent\<close> gives 0 for
  it, as only one of them is a space. So the two lines of the claim parse to two roots, and
  \<open>bar\<close> has no child.
\<close>

theorem tree_indentation_code:
  "calculateIndent ''+- com.foo:baz:jar:2.0'' = 0 \<and>
   length (takeWhile isTreeChar ''+- com.foo:baz:jar:2.0'') div 3 = 1 \<and>
   parseDependencyTree
     (''[INFO] com.foo:bar:jar:1.0'' @ CHR 0x0A # ''[INFO] +- com.foo:baz:jar:2.0'') =
   Inr ([0, 1],
        [\<lparr>groupId = ''com.foo'', artifactId = ''bar'', type = ''jar'', version = ''1.0'',
          scope = None, classifier = None, children = [], omittedReason = None\<rparr>,
         \<lparr>groupId = ''com.foo'', artifactId = ''baz'', type = ''jar'', version = ''2.0'',
          scope = None, classifier = None, children = [], omittedReason = None\<rparr>])"
  by code_simp

subsection \<open>Deduplication\<close>

lemma split_no_sep: "x \<in> set (split sep s) \<Longrightarrow> sep \<notin> set x"
proof (induction s arbitrary: x)
  case Nil
  then show ?case by simp
next
  case (Cons c s)
  then show ?case
    by (cases "split sep s") (auto split: if_splits)
qed

lemma set_trim: "set (trim s) \<subseteq> set s"
proof -
  have "set (trimEnd t) \<subseteq> set t" for t
    unfolding trimEnd_def using set_dropWhileD [of _ isWhiteSpace "rev t"] by auto
  moreover have "set (trimStart s) \<subseteq> set s"
    unfolding trimStart_def using set_dropWhileD [of _ isWhiteSpace s] by auto
  ultimately show ?thesis unfolding trim_def by blast
qed

lemma decode_groupId:
  assumes "parseResolvedDependencyNode content = Inr (Some d)"
  shows "CHR '':'' \<notin> set (groupId d)"
proof -
  have "\<exists>g rest. split CHR '':'' content = g # rest \<and> groupId d = trim g"
  proof (cases "length (split CHR '':'' content) < 4")
    case True
    then show ?thesis using assms by (simp add: decode_short)
  next
    case False
    then show ?thesis using assms
      by (cases rule: length_ge4_cases) (auto simp add: decode4 decode5 decode6)
  qed
  then obtain g rest where "split CHR '':'' content = g # rest" and g: "groupId d = trim g"
    by blast
  then have "g \<in> set (split CHR '':'' content)" by simp
  then have "CHR '':'' \<notin> set g" by (rule split_no_sep)
  then show ?thesis using set_trim [of g] g by auto
qed

lemma listLine_groupId: "listLine line = Inr (Some d) \<Longrightarrow> CHR '':'' \<notin> set (groupId d)"
  by (auto simp add: listLine_def Let_def decode_groupId split: if_splits)

lemma append_sep_inject:
  "sep \<notin> set g1 \<Longrightarrow> sep \<notin> set g2 \<Longrightarrow> g1 @ sep # a1 = g2 @ sep # a2 \<Longrightarrow> g1 = g2 \<and> a1 = a2"
proof (induction g1 arbitrary: g2)
  case Nil
  then show ?case by (cases g2) auto
next
  case (Cons c g1)
  then show ?case by (cases g2) auto
qed

lemma dependencyKey_inject:
  "CHR '':'' \<notin> set (groupId d) \<Longrightarrow> CHR '':'' \<notin> set (groupId e) \<Longrightarrow>
   dependencyKey d = dependencyKey e \<longleftrightarrow> coordinate d = coordinate e"
  using append_sep_inject [of "CHR '':''" "groupId d" "groupId e" "artifactId d" "artifactId e"]
  by (auto simp add: dependencyKey_def coordinate_def)

lemma candidates_Cons:
  "candidates (line # lines) =
     (case listLine line of Inr (Some d) \<Rightarrow> [d] | _ \<Rightarrow> []) @ candidates lines"
  by (simp add: candidates_def)

lemma listLoop_keepFirst:
  assumes "seen = dependencyKey ` set deps"
    and "\<forall>d \<in> set deps. CHR '':'' \<notin> set (groupId d)"
  shows "listLoop lines deps seen =
     Inr (deps @ keepFirst (filter (\<lambda>e. coordinate e \<notin> coordinate ` set deps) (candidates lines)))"
  using assms
proof (induction lines arbitrary: deps seen)
  case Nil
  then show ?case by (simp add: candidates_def)
next
  case (Cons line lines)
  obtain r where r: "listLine line = Inr r"
    using listLine_total by blast
  show ?case
  proof (cases r)
    case None
    then show ?thesis
      using Cons.IH [OF Cons.prems] by (simp add: r candidates_Cons)
  next
    case (Some d)
    have gd: "CHR '':'' \<notin> set (groupId d)"
      using r Some by (simp add: listLine_groupId)
    have in_seen: "dependencyKey d \<in> seen \<longleftrightarrow> coordinate d \<in> coordinate ` set deps"
    proof
      assume "dependencyKey d \<in> seen"
      then obtain e where e: "e \<in> set deps" "dependencyKey d = dependencyKey e"
        using Cons.prems(1) by auto
      then have "coordinate d = coordinate e"
        using dependencyKey_inject [OF gd] Cons.prems(2) by blast
      then show "coordinate d \<in> coordinate ` set deps" using e(1) by blast
    next
      assume "coordinate d \<in> coordinate ` set deps"
      then obtain e where e: "e \<in> set deps" "coordinate d = coordinate e" by auto
      then have "dependencyKey d = dependencyKey e"
        by (simp add: dependencyKey_def coordinate_def)
      then show "dependencyKey d \<in> seen" using e(1) Cons.prems(1) by auto
    qed
    show ?thesis
    proof (cases "dependencyKey d \<in> seen")
      case True
      then show ?thesis
        using Cons.IH [OF Cons.prems] in_seen by (simp add: r Some candidates_Cons)
    next
      case False
      have p1: "insert (dependencyKey d) seen = dependencyKey ` set (deps @ [d])"
        using Cons.prems(1) by auto
      have p2: "\<forall>x \<in> set (deps @ [d]). CHR '':'' \<notin> set (groupId x)"
        using Cons.prems(2) gd by auto
      have flt: "filter (\<lambda>e. coordinate e \<noteq> coordinate d)
            (filter (\<lambda>e. coordinate e \<notin> coordinate ` set deps) (candidates lines)) =
          filter (\<lambda>e. coordinate e \<notin> coordinate ` set (deps @ [d])) (candidates lines)"
        by (auto intro: filter_cong)
      have ih: "listLoop lines (deps @ [d]) (insert (dependencyKey d) seen) =
          Inr ((deps @ [d]) @ keepFirst (filter (\<lambda>e. coordinate e \<notin> coordinate ` set (deps @ [d]))
            (candidates lines)))"
        by (rule Cons.IH [OF p1 p2])
      have cand: "filter (\<lambda>e. coordinate e \<notin> coordinate ` set deps) (candidates (line # lines)) =
          d # filter (\<lambda>e. coordinate e \<notin> coordinate ` set deps) (candidates lines)"
        using False in_seen by (simp add: r Some candidates_Cons)
      have loop: "listLoop (line # lines) deps seen =
          listLoop lines (deps @ [d]) (insert (dependencyKey d) seen)"
        using False by (simp add: r Some)
      show ?thesis
        unfolding loop ih cand keepFirst.simps flt by simp
    qed
  qed
qed

lemma set_keepFirst: "set (keepFirst ds) \<subseteq> set ds"
  by (induction ds rule: keepFirst.induct) auto

lemma distinct_keepFirst: "distinct (map coordinate (keepFirst ds))"
proof (induction ds rule: keepFirst.induct)
  case 1
  then show ?case by simp
next
  case (2 d ds)
  have "coordinate d \<notin> coordinate ` set (keepFirst (filter (\<lambda>e. coordinate e \<noteq> coordinate d) ds))"
    using set_keepFirst [of "filter (\<lambda>e. coordinate e \<noteq> coordinate d) ds"] by auto
  then show ?case using 2 by simp
qed

lemma filter_eq_appendD:
  "filter P ds = ys @ d # zs \<Longrightarrow> \<exists>us vs. ds = us @ d # vs \<and> ys = filter P us"
proof (induction ds arbitrary: ys)
  case Nil
  then show ?case by simp
next
  case (Cons a ds)
  show ?case
  proof (cases "P a")
    case False
    with Cons.prems have "filter P ds = ys @ d # zs" by simp
    then obtain us vs where "ds = us @ d # vs" "ys = filter P us"
      using Cons.IH by blast
    with False have "a # ds = (a # us) @ d # vs \<and> ys = filter P (a # us)" by simp
    then show ?thesis by blast
  next
    case True
    show ?thesis
    proof (cases ys)
      case Nil
      with True Cons.prems have "a # ds = [] @ d # ds \<and> ys = filter P []" by simp
      then show ?thesis by blast
    next
      case (Cons y ys')
      with True Cons.prems have ay: "a = y" and "filter P ds = ys' @ d # zs" by simp_all
      then obtain us vs where "ds = us @ d # vs" "ys' = filter P us"
        using Cons.IH by blast
      with True ay Cons have "a # ds = (a # us) @ d # vs \<and> ys = filter P (a # us)" by simp
      then show ?thesis by blast
    qed
  qed
qed

text \<open>Every kept record is the first of its identity among the candidates.\<close>

lemma keepFirst_first:
  "d \<in> set (keepFirst ds) \<Longrightarrow>
   \<exists>ys zs. ds = ys @ d # zs \<and> coordinate d \<notin> coordinate ` set ys"
proof (induction ds rule: keepFirst.induct)
  case 1
  then show ?case by simp
next
  case (2 x ds)
  show ?case
  proof (cases "d = x")
    case True
    then have "x # ds = [] @ d # ds \<and> coordinate d \<notin> coordinate ` set []"
      by simp
    then show ?thesis by blast
  next
    case False
    let ?f = "filter (\<lambda>e. coordinate e \<noteq> coordinate x) ds"
    from False "2.prems" have din: "d \<in> set (keepFirst ?f)" by simp
    then obtain ys zs where f: "?f = ys @ d # zs" and nin: "coordinate d \<notin> coordinate ` set ys"
      using "2.IH" by blast
    have dx: "coordinate d \<noteq> coordinate x"
      using set_keepFirst [of ?f] din by auto
    obtain us vs where ds: "ds = us @ d # vs"
      and ys: "ys = filter (\<lambda>e. coordinate e \<noteq> coordinate x) us"
      using filter_eq_appendD [OF f] by blast
    have "coordinate d \<notin> coordinate ` set us"
    proof
      assume "coordinate d \<in> coordinate ` set us"
      then obtain e where e: "e \<in> set us" "coordinate e = coordinate d" by auto
      then have "e \<in> set ys" using ys dx by simp
      then have "coordinate e \<in> coordinate ` set ys" by (rule imageI)
      then show False using nin e(2) by simp
    qed
    then have "x # ds = (x # us) @ d # vs \<and> coordinate d \<notin> coordinate ` set (x # us)"
      using ds dx by auto
    then show ?thesis by blast
  qed
qed

text \<open>Every identity among the candidates is kept.\<close>

lemma coordinates_keepFirst: "coordinate ` set (keepFirst ds) = coordinate ` set ds"
proof (induction ds rule: keepFirst.induct)
  case 1
  then show ?case by simp
next
  case (2 d ds)
  then show ?case by auto
qed

text \<open>
  Claim C6. The list parser returns, for every text, the candidates with the first record of
  every pair of group and artifact kept and the later ones dropped, whatever their version or
  scope: no two records of the result have the same pair, and every record of the result is
  the first candidate with its pair.
\<close>

theorem list_parser_dedup:
  "\<exists>deps. parseResolvedDependencies text = Inr deps \<and>
     deps = keepFirst (candidates (split CHR 0x0A text)) \<and>
     distinct (map (\<lambda>d. (groupId d, artifactId d)) deps) \<and>
     (\<forall>d \<in> set deps. \<exists>ys zs. candidates (split CHR 0x0A text) = ys @ d # zs \<and>
        (groupId d, artifactId d) \<notin> (\<lambda>e. (groupId e, artifactId e)) ` set ys)"
proof -
  let ?cs = "candidates (split CHR 0x0A text)"
  have c: "coordinate = (\<lambda>d. (groupId d, artifactId d))"
    by (auto simp add: coordinate_def)
  have "listLoop (split CHR 0x0A text) [] {} = Inr ([] @ keepFirst (filter (\<lambda>e. coordinate e \<notin> coordinate ` set []) ?cs))"
    by (rule listLoop_keepFirst) simp_all
  then have 1: "parseResolvedDependencies text = Inr (keepFirst ?cs)"
    by (simp add: parseResolvedDependencies_def)
  have 2: "distinct (map (\<lambda>d. (groupId d, artifactId d)) (keepFirst ?cs))"
    using distinct_keepFirst [of ?cs] by (simp only: c)
  have 3: "\<forall>d \<in> set (keepFirst ?cs). \<exists>ys zs. ?cs = ys @ d # zs \<and>
        (groupId d, artifactId d) \<notin> (\<lambda>e. (groupId e, artifactId e)) ` set ys"
    using keepFirst_first [of _ ?cs] unfolding c by blast
  from 1 2 3 show ?thesis by blast
qed

theorem list_parser_dedup_witness:
  "parseResolvedDependencies
     (''[INFO]    com.foo:bar:jar:1.0:compile'' @ CHR 0x0A # ''[INFO]    com.foo:bar:jar:2.0:test'') =
   Inr [\<lparr>groupId = ''com.foo'', artifactId = ''bar'', type = ''jar'', version = ''1.0'',
         scope = Some ''compile'', classifier = None\<rparr>]"
proof -
  let ?t = "''[INFO]    com.foo:bar:jar:1.0:compile'' @ CHR 0x0A # ''[INFO]    com.foo:bar:jar:2.0:test''"
  have k: "keepFirst (candidates (split CHR 0x0A ?t)) =
    [\<lparr>groupId = ''com.foo'', artifactId = ''bar'', type = ''jar'', version = ''1.0'',
         scope = Some ''compile'', classifier = None\<rparr>]"
    by code_simp
  from list_parser_dedup [of ?t] show ?thesis
    unfolding k by blast
qed

subsection \<open>Omission suffixes of the tree parser\<close>

lemma startsWith_iff: "startsWith s p \<longleftrightarrow> (\<exists>r. s = p @ r)"
  by (induction s p rule: startsWith.induct) auto

lemma matchHere_iff: "matchHere lit grp s \<longleftrightarrow> endsInSuffix s lit grp []"
  by (auto simp add: matchHere_def endsInSuffix_def startsWith_iff list_ex_iff)

lemma endsInSuffix_Cons:
  "endsInSuffix (c # s) lit grp (c' # pre) \<longleftrightarrow> c = c' \<and> endsInSuffix s lit grp pre"
  by (auto simp add: endsInSuffix_def)

lemma endsInSuffix_Nil: "endsInSuffix [] lit grp (c # pre) \<longleftrightarrow> False"
  by (auto simp add: endsInSuffix_def)

lemma regexSearch_Some:
  "regexSearch lit grp s = Some pre \<Longrightarrow> endsInSuffix s lit grp pre"
proof (induction s arbitrary: pre)
  case Nil
  then show ?case by (auto simp add: matchHere_iff split: if_splits)
next
  case (Cons c s)
  show ?case
  proof (cases "matchHere lit grp (c # s)")
    case True
    with Cons.prems show ?thesis by (simp add: matchHere_iff)
  next
    case False
    with Cons.prems obtain pre' where "regexSearch lit grp s = Some pre'" "pre = c # pre'"
      by auto
    then show ?thesis using Cons.IH by (simp add: endsInSuffix_Cons)
  qed
qed

lemma regexSearch_None:
  "regexSearch lit grp s = None \<Longrightarrow> \<not> endsInSuffix s lit grp pre"
proof (induction s arbitrary: pre)
  case Nil
  then show ?case
    by (cases pre) (auto simp add: matchHere_iff endsInSuffix_Nil split: if_splits)
next
  case (Cons c s)
  then have nm: "\<not> matchHere lit grp (c # s)" and rest: "regexSearch lit grp s = None"
    by (auto split: if_splits)
  show ?case
  proof (cases pre)
    case Nil
    then show ?thesis using nm by (simp add: matchHere_iff)
  next
    case (Cons c' pre')
    then show ?thesis using Cons.IH [OF rest] by (simp add: endsInSuffix_Cons)
  qed
qed

lemma matchOmitted_Some:
  "matchOmitted pats u = Some (reason, clean) \<Longrightarrow>
   \<exists>lit grp pre ps qs. pats = ps @ (lit, grp, reason) # qs \<and>
     (\<forall>(l, g, r) \<in> set ps. \<forall>p. \<not> endsInSuffix u l g p) \<and>
     endsInSuffix u lit grp pre \<and> clean = trim pre"
proof (induction pats u rule: matchOmitted.induct)
  case (1 content)
  then show ?case by simp
next
  case (2 lit grp r pats content)
  show ?case
  proof (cases "regexSearch lit grp content")
    case None
    with "2.prems" have "matchOmitted pats content = Some (reason, clean)" by simp
    then obtain lit' grp' pre ps qs where ih: "pats = ps @ (lit', grp', reason) # qs"
        "\<forall>(l, g, r) \<in> set ps. \<forall>p. \<not> endsInSuffix content l g p"
        "endsInSuffix content lit' grp' pre" "clean = trim pre"
      using "2.IH" [OF None] by blast
    have "(lit, grp, r) # pats = ((lit, grp, r) # ps) @ (lit', grp', reason) # qs"
      using ih(1) by simp
    moreover have "\<forall>(l, g, r) \<in> set ((lit, grp, r) # ps). \<forall>p. \<not> endsInSuffix content l g p"
      using ih(2) regexSearch_None [OF None] by simp
    ultimately show ?thesis using ih(3,4) by blast
  next
    case (Some pre)
    with "2.prems" have "r = reason" "clean = trim pre" by simp_all
    moreover have "endsInSuffix content lit grp pre" using Some by (rule regexSearch_Some)
    ultimately have "(lit, grp, r) # pats = [] @ (lit, grp, reason) # pats \<and>
        (\<forall>(l, g, r) \<in> set []. \<forall>p. \<not> endsInSuffix content l g p) \<and>
        endsInSuffix content lit grp pre \<and> clean = trim pre"
      by simp
    then show ?thesis by blast
  qed
qed

lemma matchOmitted_None:
  "matchOmitted pats u = None \<Longrightarrow> (lit, grp, reason) \<in> set pats \<Longrightarrow>
   \<not> endsInSuffix u lit grp pre"
proof (induction pats u rule: matchOmitted.induct)
  case (1 content)
  then show ?case by simp
next
  case (2 lit' grp' r pats content)
  then show ?case
    by (cases "regexSearch lit' grp' content") (auto simp add: regexSearch_None)
qed



















section \<open>Properties of the cache manager\<close>

subsection \<open>Reading\<close>

lemma get_memory:
  "memoryCache s (generateCacheKey p k) = Some c \<Longrightarrow> isCacheValid w c p \<Longrightarrow>
   get w p k False s = (Some (data c), s)"
  by (simp add: get_def validEntry_def)

lemma get_workspace:
  "\<not> validEntry w p (memoryCache s (generateCacheKey p k)) \<Longrightarrow>
   workspaceState s (getWorkspaceStateKey w p k) = Some c \<Longrightarrow> isCacheValid w c p \<Longrightarrow>
   get w p k False s =
     (Some (data c), s\<lparr>memoryCache := (memoryCache s)(generateCacheKey p k \<mapsto> c)\<rparr>)"
  by (simp add: get_def validEntry_def Let_def)

lemma get_file:
  "\<not> validEntry w p (memoryCache s (generateCacheKey p k)) \<Longrightarrow>
   \<not> validEntry w p (workspaceState s (getWorkspaceStateKey w p k)) \<Longrightarrow>
   getFromFileCache w s p k = Some c \<Longrightarrow> isCacheValid w c p \<Longrightarrow>
   get w p k False s =
     (Some (data c), s\<lparr>memoryCache := (memoryCache s)(generateCacheKey p k \<mapsto> c)\<rparr>)"
  by (simp add: get_def validEntry_def Let_def)

lemma get_miss:
  "\<not> validEntry w p (memoryCache s (generateCacheKey p k)) \<Longrightarrow>
   \<not> validEntry w p (workspaceState s (getWorkspaceStateKey w p k)) \<Longrightarrow>
   \<not> validEntry w p (getFromFileCache w s p k) \<Longrightarrow>
   get w p k False s = (None, s)"
  by (simp add: get_def Let_def)

lemma get_persistent:
  "workspaceState (snd (get w p k f s)) = workspaceState s \<and>
   files (snd (get w p k f s)) = files s"
  by (simp add: get_def Let_def)

text \<open>
  Claim C2 as stated fails here: a hit in the files fills the memory cache, but not the
  workspace store.
\<close>

theorem cache_get_blob_hit_counterexample:
  "fst (get exampleWorld ''/p/pom.xml'' ''dependencyTree'' False
          (emptyState\<lparr>files := [''/store/cache-dependencyTree-h.json'' \<mapsto> ''v'']\<rparr>)) = Some ''v'' \<and>
   memoryCache (snd (get exampleWorld ''/p/pom.xml'' ''dependencyTree'' False
          (emptyState\<lparr>files := [''/store/cache-dependencyTree-h.json'' \<mapsto> ''v'']\<rparr>)))
     (generateCacheKey ''/p/pom.xml'' ''dependencyTree'') = Some exampleEntry \<and>
   workspaceState (snd (get exampleWorld ''/p/pom.xml'' ''dependencyTree'' False
          (emptyState\<lparr>files := [''/store/cache-dependencyTree-h.json'' \<mapsto> ''v'']\<rparr>)))
     (getWorkspaceStateKey exampleWorld ''/p/pom.xml'' ''dependencyTree'') = None"
  by (simp add: get_def Let_def validEntry_def isCacheValid_def getFromFileCache_def
      getCacheFilePath_def exampleWorld_def emptyState_def exampleEntry_def CACHE_VERSION_def
      MAX_CACHE_AGE_MS_def generateCacheKey_def getWorkspaceStateKey_def)

text \<open>
  Claim C2, as the code has it. Without a forced refresh \<open>get\<close> looks into the memory
  cache, the workspace store and the files, in this order, and returns the data of the first
  entry that is valid. A hit in the workspace store or in the files writes the entry into the
  memory cache, and into nothing else: the workspace store and the files are left as they
  were.
\<close>

theorem cache_get:
  "(memoryCache s (generateCacheKey p k) = Some c \<and> isCacheValid w c p \<longrightarrow>
      get w p k False s = (Some (data c), s)) \<and>
   (\<not> validEntry w p (memoryCache s (generateCacheKey p k)) \<and>
    workspaceState s (getWorkspaceStateKey w p k) = Some c \<and> isCacheValid w c p \<longrightarrow>
      get w p k False s =
        (Some (data c), s\<lparr>memoryCache := (memoryCache s)(generateCacheKey p k \<mapsto> c)\<rparr>)) \<and>
   (\<not> validEntry w p (memoryCache s (generateCacheKey p k)) \<and>
    \<not> validEntry w p (workspaceState s (getWorkspaceStateKey w p k)) \<and>
    getFromFileCache w s p k = Some c \<and> isCacheValid w c p \<longrightarrow>
      get w p k False s =
        (Some (data c), s\<lparr>memoryCache := (memoryCache s)(generateCacheKey p k \<mapsto> c)\<rparr>)) \<and>
   (\<not> validEntry w p (memoryCache s (generateCacheKey p k)) \<and>
    \<not> validEntry w p (workspaceState s (getWorkspaceStateKey w p k)) \<and>
    \<not> validEntry w p (getFromFileCache w s p k) \<longrightarrow>
      get w p k False s = (None, s)) \<and>
   workspaceState (snd (get w p k False s)) = workspaceState s \<and>
   files (snd (get w p k False s)) = files s"
  using get_memory [of s p k c w] get_workspace [of w p s k c] get_file [of w p s k c]
    get_miss [of w p s k] get_persistent [of w p k False s]
  by (intro conjI impI; (elim conjE)?; simp)

theorem cache_get_witness:
  "get exampleWorld ''/p/pom.xml'' ''dependencyTree'' False
     (emptyState\<lparr>files := [''/store/cache-dependencyTree-h.json'' \<mapsto> ''v'']\<rparr>) =
   (Some ''v'',
    emptyState\<lparr>files := [''/store/cache-dependencyTree-h.json'' \<mapsto> ''v''],
               memoryCache := [generateCacheKey ''/p/pom.xml'' ''dependencyTree'' \<mapsto> exampleEntry]\<rparr>)"
proof -
  let ?s = "emptyState\<lparr>files := [''/store/cache-dependencyTree-h.json'' \<mapsto> ''v'']\<rparr>"
  have h: "\<not> validEntry exampleWorld ''/p/pom.xml''
        (memoryCache ?s (generateCacheKey ''/p/pom.xml'' ''dependencyTree'')) \<and>
      \<not> validEntry exampleWorld ''/p/pom.xml''
        (workspaceState ?s (getWorkspaceStateKey exampleWorld ''/p/pom.xml'' ''dependencyTree'')) \<and>
      getFromFileCache exampleWorld ?s ''/p/pom.xml'' ''dependencyTree'' = Some exampleEntry \<and>
      isCacheValid exampleWorld exampleEntry ''/p/pom.xml''"
    by (simp add: validEntry_def isCacheValid_def getFromFileCache_def getCacheFilePath_def
        exampleWorld_def emptyState_def exampleEntry_def CACHE_VERSION_def MAX_CACHE_AGE_MS_def)
  have "get exampleWorld ''/p/pom.xml'' ''dependencyTree'' False ?s =
      (Some (data exampleEntry),
       ?s\<lparr>memoryCache := (memoryCache ?s)(generateCacheKey ''/p/pom.xml'' ''dependencyTree'' \<mapsto> exampleEntry)\<rparr>)"
    by (rule cache_get [of ?s "''/p/pom.xml''" "''dependencyTree''" exampleEntry exampleWorld,
          THEN conjunct2, THEN conjunct2, THEN conjunct1, THEN mp, OF h])
  then show ?thesis
    by (simp add: exampleEntry_def emptyState_def)
qed

subsection \<open>Writing\<close>

lemmas set_defs = set_cache_def setTry_def setToFileCache_def getCacheFilePath_def Let_def

lemma set_returns: "fst (set_cache w p k d s) = Inr ()"
  by (simp add: set_defs split: option.splits)

lemma set_stat_failed:
  "statMtime w p = None \<Longrightarrow>
   snd (set_cache w p k d s) = s\<lparr>errorLog := errorLog s @ [''error: cache write failed'']\<rparr>"
  by (simp add: set_defs)

lemma set_memory:
  "statMtime w p = Some m \<Longrightarrow>
   memoryCache (snd (set_cache w p k d s)) =
     (memoryCache s)(generateCacheKey p k \<mapsto> newEntry w d m)"
  by (simp add: set_defs newEntry_def split: option.splits)

lemma set_large_workspace:
  "SMALL_DATA_THRESHOLD \<le> estimateDataSize w d \<Longrightarrow>
   workspaceState (snd (set_cache w p k d s)) = workspaceState s"
  by (simp add: set_defs split: option.splits)

lemma set_small_files:
  "estimateDataSize w d < SMALL_DATA_THRESHOLD \<Longrightarrow>
   files (snd (set_cache w p k d s)) = files s"
  by (simp add: set_defs split: option.splits)

lemma set_small_written:
  "statMtime w p = Some m \<Longrightarrow> estimateDataSize w d < SMALL_DATA_THRESHOLD \<Longrightarrow>
   \<not> updateFails w \<Longrightarrow>
   workspaceState (snd (set_cache w p k d s)) =
     (workspaceState s)(getWorkspaceStateKey w p k \<mapsto> newEntry w d m)"
  by (simp add: set_defs newEntry_def)

lemma set_large_written:
  "statMtime w p = Some m \<Longrightarrow> SMALL_DATA_THRESHOLD \<le> estimateDataSize w d \<Longrightarrow>
   storageUri w = Some dir \<Longrightarrow> \<not> writeFails w \<Longrightarrow>
   files (snd (set_cache w p k d s)) =
     (files s)(dir @ ''/'' @ ''cache-'' @ k @ ''-'' @ md5hex w p @ ''.json'' \<mapsto>
        encodeEntry w (newEntry w d m))"
  by (simp add: set_defs newEntry_def)

lemma set_small_failed:
  "statMtime w p = Some m \<Longrightarrow> estimateDataSize w d < SMALL_DATA_THRESHOLD \<Longrightarrow>
   updateFails w \<Longrightarrow>
   errorLog (snd (set_cache w p k d s)) = errorLog s @ [''error: cache write failed''] \<and>
   workspaceState (snd (set_cache w p k d s)) = workspaceState s"
  by (simp add: set_defs)

lemma set_large_failed:
  "statMtime w p = Some m \<Longrightarrow> SMALL_DATA_THRESHOLD \<le> estimateDataSize w d \<Longrightarrow>
   storageUri w \<noteq> None \<Longrightarrow> writeFails w \<Longrightarrow>
   errorLog (snd (set_cache w p k d s)) =
     errorLog s @ [''error: file cache write failed'', ''error: cache write failed''] \<and>
   files (snd (set_cache w p k d s)) = files s"
  by (auto simp add: set_defs)

text \<open>Without a storage URI large data reach no persistent tier.\<close>

lemma set_large_no_storage:
  "statMtime w p = Some m \<Longrightarrow> SMALL_DATA_THRESHOLD \<le> estimateDataSize w d \<Longrightarrow>
   storageUri w = None \<Longrightarrow>
   files (snd (set_cache w p k d s)) = files s \<and>
   workspaceState (snd (set_cache w p k d s)) = workspaceState s"
  by (simp add: set_defs)

text \<open>
  Claim C5 as stated fails here: without a storage URI a payload of 60 KiB is written to no
  persistent tier.
\<close>

theorem cache_set_no_tier_counterexample:
  "estimateDataSize (exampleWorld\<lparr>storageUri := None\<rparr>) (replicate (60 * 1024) CHR ''x'') =
     60 * 1024 \<and>
   workspaceState (snd (set_cache (exampleWorld\<lparr>storageUri := None\<rparr>) ''/p/pom.xml''
     ''dependencyTree'' (replicate (60 * 1024) CHR ''x'') emptyState)) = Map.empty \<and>
   files (snd (set_cache (exampleWorld\<lparr>storageUri := None\<rparr>) ''/p/pom.xml''
     ''dependencyTree'' (replicate (60 * 1024) CHR ''x'') emptyState)) = Map.empty"
  by (simp add: set_defs estimateDataSize_def SMALL_DATA_THRESHOLD_def exampleWorld_def
      emptyState_def)

text \<open>
  Claim C5, as the code has it. \<open>set\<close> writes to at most one persistent tier, never to
  both: from the threshold of 50 KiB on never the workspace store, below it never the
  files. When the source file can be probed and the write succeeds, the entry is in the
  workspace store for an estimate below the threshold, and in the file of its key otherwise,
  given a storage URI. A payload whose serialization has 60 KiB is not written to the
  workspace store.
\<close>

theorem cache_set_placement:
  "(workspaceState (snd (set_cache w p k d s)) = workspaceState s \<or>
    files (snd (set_cache w p k d s)) = files s) \<and>
   (SMALL_DATA_THRESHOLD \<le> estimateDataSize w d \<longrightarrow>
      workspaceState (snd (set_cache w p k d s)) = workspaceState s) \<and>
   (estimateDataSize w d < SMALL_DATA_THRESHOLD \<longrightarrow>
      files (snd (set_cache w p k d s)) = files s) \<and>
   (statMtime w p = Some m \<and> estimateDataSize w d < SMALL_DATA_THRESHOLD \<and> \<not> updateFails w \<longrightarrow>
      workspaceState (snd (set_cache w p k d s)) =
        (workspaceState s)(getWorkspaceStateKey w p k \<mapsto> newEntry w d m)) \<and>
   (statMtime w p = Some m \<and> SMALL_DATA_THRESHOLD \<le> estimateDataSize w d \<and>
    storageUri w = Some dir \<and> \<not> writeFails w \<longrightarrow>
      files (snd (set_cache w p k d s)) =
        (files s)(dir @ ''/'' @ ''cache-'' @ k @ ''-'' @ md5hex w p @ ''.json'' \<mapsto>
           encodeEntry w (newEntry w d m))) \<and>
   (jsonStringify w d = Some str \<and> length str = 60 * 1024 \<longrightarrow>
      workspaceState (snd (set_cache w p k d s)) = workspaceState s) \<and>
   SMALL_DATA_THRESHOLD = 50 * 1024"
proof -
  have never_both: "workspaceState (snd (set_cache w p k d s)) = workspaceState s \<or>
      files (snd (set_cache w p k d s)) = files s"
    using set_large_workspace [of w d p k s] set_small_files [of w d p k s]
    by (cases "estimateDataSize w d < SMALL_DATA_THRESHOLD") simp_all
  have large: "SMALL_DATA_THRESHOLD \<le> estimateDataSize w d \<longrightarrow>
      workspaceState (snd (set_cache w p k d s)) = workspaceState s"
    by (simp add: set_large_workspace)
  have small: "estimateDataSize w d < SMALL_DATA_THRESHOLD \<longrightarrow>
      files (snd (set_cache w p k d s)) = files s"
    by (simp add: set_small_files)
  have small_written: "statMtime w p = Some m \<and> estimateDataSize w d < SMALL_DATA_THRESHOLD \<and>
      \<not> updateFails w \<longrightarrow>
      workspaceState (snd (set_cache w p k d s)) =
        (workspaceState s)(getWorkspaceStateKey w p k \<mapsto> newEntry w d m)"
    using set_small_written [of w p m d k s] by blast
  have large_written: "statMtime w p = Some m \<and> SMALL_DATA_THRESHOLD \<le> estimateDataSize w d \<and>
      storageUri w = Some dir \<and> \<not> writeFails w \<longrightarrow>
      files (snd (set_cache w p k d s)) =
        (files s)(dir @ ''/'' @ ''cache-'' @ k @ ''-'' @ md5hex w p @ ''.json'' \<mapsto>
           encodeEntry w (newEntry w d m))"
    using set_large_written [of w p m d dir k s] by blast
  have sixty: "jsonStringify w d = Some str \<and> length str = 60 * 1024 \<longrightarrow>
      workspaceState (snd (set_cache w p k d s)) = workspaceState s"
  proof
    assume "jsonStringify w d = Some str \<and> length str = 60 * 1024"
    then have "SMALL_DATA_THRESHOLD \<le> estimateDataSize w d"
      by (simp add: estimateDataSize_def SMALL_DATA_THRESHOLD_def)
    then show "workspaceState (snd (set_cache w p k d s)) = workspaceState s"
      by (rule set_large_workspace)
  qed
  have threshold: "SMALL_DATA_THRESHOLD = 50 * 1024"
    by (simp add: SMALL_DATA_THRESHOLD_def)
  from never_both large small small_written large_written sixty threshold
  show ?thesis by (intro conjI)
qed

theorem cache_set_placement_witness:
  "files (snd (set_cache exampleWorld ''/p/pom.xml'' ''dependencyTree''
       (replicate (60 * 1024) CHR ''x'') emptyState)) =
     [''/store/cache-dependencyTree-h.json'' \<mapsto>
        encodeEntry exampleWorld (newEntry exampleWorld (replicate (60 * 1024) CHR ''x'') 500)] \<and>
   workspaceState (snd (set_cache exampleWorld ''/p/pom.xml'' ''dependencyTree''
       (replicate (60 * 1024) CHR ''x'') emptyState)) = Map.empty"
proof -
  let ?d = "replicate (60 * 1024) CHR ''x''"
  note inst = cache_set_placement [of exampleWorld "''/p/pom.xml''" "''dependencyTree''" ?d
      emptyState 500 "''/store''" ?d]
  have h1: "statMtime exampleWorld ''/p/pom.xml'' = Some 500 \<and>
      SMALL_DATA_THRESHOLD \<le> estimateDataSize exampleWorld ?d \<and>
      storageUri exampleWorld = Some ''/store'' \<and> \<not> writeFails exampleWorld"
    by (simp add: exampleWorld_def estimateDataSize_def SMALL_DATA_THRESHOLD_def)
  have h2: "jsonStringify exampleWorld ?d = Some ?d \<and> length ?d = 60 * 1024"
    by (simp add: exampleWorld_def)
  have 1: "files (snd (set_cache exampleWorld ''/p/pom.xml'' ''dependencyTree'' ?d emptyState)) =
      (files emptyState)(''/store'' @ ''/'' @ ''cache-'' @ ''dependencyTree'' @ ''-'' @
         md5hex exampleWorld ''/p/pom.xml'' @ ''.json'' \<mapsto>
           encodeEntry exampleWorld (newEntry exampleWorld ?d 500))"
    by (rule inst [THEN conjunct2, THEN conjunct2, THEN conjunct2, THEN conjunct2,
          THEN conjunct1, THEN mp, OF h1])
  have 2: "workspaceState (snd (set_cache exampleWorld ''/p/pom.xml'' ''dependencyTree'' ?d
      emptyState)) = workspaceState emptyState"
    by (rule inst [THEN conjunct2, THEN conjunct2, THEN conjunct2, THEN conjunct2,
          THEN conjunct2, THEN conjunct1, THEN mp, OF h2])
  have 3: "md5hex exampleWorld ''/p/pom.xml'' = ''h''" "files emptyState = Map.empty"
    "workspaceState emptyState = Map.empty"
    by (simp_all add: exampleWorld_def emptyState_def)
  from 1 2 show ?thesis
    unfolding 3 by simp
qed

text \<open>
  Claim C7 as stated fails here: for a source file that cannot be probed \<open>set\<close> does not
  write the memory cache.
\<close>

theorem cache_set_stat_counterexample:
  "memoryCache (snd (set_cache exampleWorld ''/q/pom.xml'' ''dependencyTree'' ''v'' emptyState))
     (generateCacheKey ''/q/pom.xml'' ''dependencyTree'') = None"
  by (simp add: set_defs exampleWorld_def emptyState_def)

text \<open>
  Claim C7, as the code has it. \<open>set\<close> never throws. Whenever the source file can be
  probed, the memory cache holds the new entry afterwards, also when the write to the
  workspace store or to the file fails; such a failure is written to the console and leaves
  the persistent tier as it was. When the probe fails, nothing is written but the console.
\<close>

theorem cache_set_failures:
  "fst (set_cache w p k d s) = Inr () \<and>
   (statMtime w p = Some m \<longrightarrow>
      memoryCache (snd (set_cache w p k d s)) =
        (memoryCache s)(generateCacheKey p k \<mapsto> newEntry w d m)) \<and>
   (statMtime w p = Some m \<and> estimateDataSize w d < SMALL_DATA_THRESHOLD \<and> updateFails w \<longrightarrow>
      errorLog (snd (set_cache w p k d s)) = errorLog s @ [''error: cache write failed''] \<and>
      workspaceState (snd (set_cache w p k d s)) = workspaceState s) \<and>
   (statMtime w p = Some m \<and> SMALL_DATA_THRESHOLD \<le> estimateDataSize w d \<and>
    storageUri w \<noteq> None \<and> writeFails w \<longrightarrow>
      errorLog (snd (set_cache w p k d s)) =
        errorLog s @ [''error: file cache write failed'', ''error: cache write failed''] \<and>
      files (snd (set_cache w p k d s)) = files s) \<and>
   (statMtime w p = None \<longrightarrow>
      snd (set_cache w p k d s) = s\<lparr>errorLog := errorLog s @ [''error: cache write failed'']\<rparr>)"
proof -
  have mem: "statMtime w p = Some m \<longrightarrow>
      memoryCache (snd (set_cache w p k d s)) =
        (memoryCache s)(generateCacheKey p k \<mapsto> newEntry w d m)"
    by (simp add: set_memory)
  have small: "statMtime w p = Some m \<and> estimateDataSize w d < SMALL_DATA_THRESHOLD \<and>
      updateFails w \<longrightarrow>
      errorLog (snd (set_cache w p k d s)) = errorLog s @ [''error: cache write failed''] \<and>
      workspaceState (snd (set_cache w p k d s)) = workspaceState s"
    using set_small_failed [of w p m d k s] by blast
  have large: "statMtime w p = Some m \<and> SMALL_DATA_THRESHOLD \<le> estimateDataSize w d \<and>
      storageUri w \<noteq> None \<and> writeFails w \<longrightarrow>
      errorLog (snd (set_cache w p k d s)) =
        errorLog s @ [''error: file cache write failed'', ''error: cache write failed''] \<and>
      files (snd (set_cache w p k d s)) = files s"
    using set_large_failed [of w p m d k s] by blast
  have stat: "statMtime w p = None \<longrightarrow>
      snd (set_cache w p k d s) = s\<lparr>errorLog := errorLog s @ [''error: cache write failed'']\<rparr>"
    by (simp add: set_stat_failed)
  from set_returns [of w p k d s] mem small large stat
  show ?thesis by (intro conjI)
qed

theorem cache_set_failures_witness:
  "memoryCache (snd (set_cache (exampleWorld\<lparr>updateFails := True\<rparr>) ''/p/pom.xml''
       ''dependencyTree'' ''v'' emptyState)) =
     [generateCacheKey ''/p/pom.xml'' ''dependencyTree'' \<mapsto>
        newEntry (exampleWorld\<lparr>updateFails := True\<rparr>) ''v'' 500] \<and>
   errorLog (snd (set_cache (exampleWorld\<lparr>updateFails := True\<rparr>) ''/p/pom.xml''
       ''dependencyTree'' ''v'' emptyState)) = [''error: cache write failed''] \<and>
   fst (set_cache (exampleWorld\<lparr>updateFails := True\<rparr>) ''/p/pom.xml''
       ''dependencyTree'' ''v'' emptyState) = Inr ()"
proof -
  let ?w = "exampleWorld\<lparr>updateFails := True\<rparr>"
  note inst = cache_set_failures [of ?w "''/p/pom.xml''" "''dependencyTree''" "''v''" emptyState 500]
  have h1: "statMtime ?w ''/p/pom.xml'' = Some 500"
    by (simp add: exampleWorld_def)
  have h2: "statMtime ?w ''/p/pom.xml'' = Some 500 \<and>
      estimateDataSize ?w ''v'' < SMALL_DATA_THRESHOLD \<and> updateFails ?w"
    by (simp add: exampleWorld_def estimateDataSize_def SMALL_DATA_THRESHOLD_def)
  have 1: "memoryCache (snd (set_cache ?w ''/p/pom.xml'' ''dependencyTree'' ''v'' emptyState)) =
      (memoryCache emptyState)(generateCacheKey ''/p/pom.xml'' ''dependencyTree'' \<mapsto>
         newEntry ?w ''v'' 500)"
    by (rule inst [THEN conjunct2, THEN conjunct1, THEN mp, OF h1])
  have 2: "errorLog (snd (set_cache ?w ''/p/pom.xml'' ''dependencyTree'' ''v'' emptyState)) =
      errorLog emptyState @ [''error: cache write failed'']"
    by (rule inst [THEN conjunct2, THEN conjunct2, THEN conjunct1, THEN mp, OF h2,
          THEN conjunct1])
  have 3: "fst (set_cache ?w ''/p/pom.xml'' ''dependencyTree'' ''v'' emptyState) = Inr ()"
    by (rule inst [THEN conjunct1])
  have e: "memoryCache emptyState = Map.empty" "errorLog emptyState = []"
    by (simp_all add: emptyState_def)
  from 1 2 3 show ?thesis
    unfolding e by simp
qed

subsection \<open>Writing, then reading\<close>

text \<open>
  Claim C8 as stated fails here: for a source file that cannot be probed, \<open>get\<close> after
  \<open>set\<close> returns \<open>null\<close>.
\<close>

theorem cache_round_trip_counterexample:
  "fst (get exampleWorld ''/q/pom.xml'' ''dependencyTree'' False
     (snd (set_cache exampleWorld ''/q/pom.xml'' ''dependencyTree'' ''v'' emptyState))) = None"
  by (simp add: set_defs get_def validEntry_def getFromFileCache_def exampleWorld_def
      emptyState_def)

text \<open>
  Claim C8, as the code has it. When the source file can be probed, \<open>set\<close> followed by a
  \<open>get\<close> of the same key without forced refresh returns the value, provided the probe
  gives the same modification time and the clock has advanced by at most the time to live;
  whether the persistent write succeeded does not matter.
\<close>

theorem cache_round_trip:
  assumes "statMtime w p = Some m"
    and "statMtime w' p = statMtime w p"
    and "dateNow w' - dateNow w \<le> MAX_CACHE_AGE_MS"
  shows "fst (get w' p k False (snd (set_cache w p k v s))) = Some v"
proof -
  let ?s = "snd (set_cache w p k v s)"
  have "memoryCache ?s (generateCacheKey p k) = Some (newEntry w v m)"
    using set_memory [OF assms(1), of k v s] by simp
  moreover have "isCacheValid w' (newEntry w v m) p"
    using assms by (simp add: isCacheValid_def newEntry_def)
  ultimately have "get w' p k False ?s = (Some (data (newEntry w v m)), ?s)"
    by (rule get_memory)
  then show ?thesis by (simp add: newEntry_def)
qed

theorem cache_round_trip_witness:
  "fst (get (exampleWorld\<lparr>dateNow := 2000\<rparr>) ''/p/pom.xml'' ''dependencyTree'' False
     (snd (set_cache exampleWorld ''/p/pom.xml'' ''dependencyTree'' ''v'' emptyState))) = Some ''v''"
proof -
  have 1: "statMtime exampleWorld ''/p/pom.xml'' = Some 500"
    by (simp add: exampleWorld_def)
  have 2: "statMtime (exampleWorld\<lparr>dateNow := 2000\<rparr>) ''/p/pom.xml'' =
      statMtime exampleWorld ''/p/pom.xml''"
    by simp
  have 3: "dateNow (exampleWorld\<lparr>dateNow := 2000\<rparr>) - dateNow exampleWorld \<le> MAX_CACHE_AGE_MS"
    by (simp add: exampleWorld_def MAX_CACHE_AGE_MS_def)
  show ?thesis
    by (rule cache_round_trip [OF 1 2 3])
qed

end
